theory Spec2Isabelle
  imports Main "HOL-Library.AList"
begin

section \<open>JavaScript values used by the bridge\<close>

text \<open>
  A JavaScript \<^verbatim>\<open>Map\<close> keeps its entries in insertion order, and \<^verbatim>\<open>set\<close> on a key
  that is already present replaces the value where the entry stands. It is an association
  list here; \<^verbatim>\<open>keys()\<close>, \<^verbatim>\<open>values()\<close> and \<^verbatim>\<open>entries()\<close> run through the list.
\<close>

type_synonym ('k, 'v) jsmap = "('k \<times> 'v) list"

definition Map_get :: "('k, 'v) jsmap \<Rightarrow> 'k \<Rightarrow> 'v option" where
  "Map_get m k = map_of m k"

definition Map_has :: "('k, 'v) jsmap \<Rightarrow> 'k \<Rightarrow> bool" where
  "Map_has m k = (map_of m k \<noteq> None)"

definition Map_set :: "'k \<Rightarrow> 'v \<Rightarrow> ('k, 'v) jsmap \<Rightarrow> ('k, 'v) jsmap" where
  "Map_set k v m = AList.update k v m"

definition Map_delete :: "'k \<Rightarrow> ('k, 'v) jsmap \<Rightarrow> ('k, 'v) jsmap" where
  "Map_delete k m = AList.delete k m"

definition Map_keys :: "('k, 'v) jsmap \<Rightarrow> 'k list" where
  "Map_keys m = map fst m"

definition Map_values :: "('k, 'v) jsmap \<Rightarrow> 'v list" where
  "Map_values m = map snd m"

text \<open>\<^verbatim>\<open>Array.prototype.find\<close>: the first element that satisfies the predicate.\<close>

fun Array_find :: "('a \<Rightarrow> bool) \<Rightarrow> 'a list \<Rightarrow> 'a option" where
  "Array_find p [] = None"
| "Array_find p (x # xs) = (if p x then Some x else Array_find p xs)"

text \<open>
  Strings are lists of 8-bit characters read as code points 0 to 255. The character
  classes below are those of the two regular expressions of the source.
\<close>

definition code :: "char \<Rightarrow> nat" where
  "code c = of_char c"

definition is_lower :: "char \<Rightarrow> bool" where
  "is_lower c = (97 \<le> code c \<and> code c \<le> 122)"

definition is_upper :: "char \<Rightarrow> bool" where
  "is_upper c = (65 \<le> code c \<and> code c \<le> 90)"

definition is_digit :: "char \<Rightarrow> bool" where
  "is_digit c = (48 \<le> code c \<and> code c \<le> 57)"

text \<open>The class \<^verbatim>\<open>[a-zA-Z0-9-_]\<close>, which is also \<^verbatim>\<open>[a-z0-9-_]\<close> under the flag \<^verbatim>\<open>i\<close>.\<close>

definition is_name_char :: "char \<Rightarrow> bool" where
  "is_name_char c = (is_lower c \<or> is_upper c \<or> is_digit c \<or> c = CHR ''-'' \<or> c = CHR ''_'')"

text \<open>\<^verbatim>\<open>\s\<close>: tab, line feed, vertical tab, form feed, carriage return, space, no-break space.\<close>

definition is_space :: "char \<Rightarrow> bool" where
  "is_space c = ((9 \<le> code c \<and> code c \<le> 13) \<or> code c = 32 \<or> code c = 160)"

text \<open>The dot of a regular expression matches everything but a line terminator.\<close>

definition is_dot :: "char \<Rightarrow> bool" where
  "is_dot c = (code c \<noteq> 10 \<and> code c \<noteq> 13)"

text \<open>
  \<^verbatim>\<open>toLowerCase\<close> on code points 0 to 255: the letters A to Z, and the Latin-1 capitals
  but the multiplication sign, move up by 32.
\<close>

definition lower_char :: "char \<Rightarrow> char" where
  "lower_char c =
     (if is_upper c \<or> (192 \<le> code c \<and> code c \<le> 222 \<and> code c \<noteq> 215)
      then char_of (code c + 32) else c)"

definition toLowerCase :: "string \<Rightarrow> string" where
  "toLowerCase s = map lower_char s"

fun startsWith :: "string \<Rightarrow> string \<Rightarrow> bool" where
  "startsWith s [] = True"
| "startsWith [] (p # ps) = False"
| "startsWith (c # cs) (p # ps) = (c = p \<and> startsWith cs ps)"

definition endsWith :: "string \<Rightarrow> string \<Rightarrow> bool" where
  "endsWith s p = startsWith (rev s) (rev p)"

text \<open>\<^verbatim>\<open>s.replace(pat, rep)\<close> with a string pattern replaces its first occurrence only.\<close>

fun replace_first :: "string \<Rightarrow> string \<Rightarrow> string \<Rightarrow> string" where
  "replace_first pat rep [] = (if pat = [] then rep else [])"
| "replace_first pat rep (c # cs) =
     (if startsWith (c # cs) pat then rep @ drop (length pat) (c # cs)
      else c # replace_first pat rep cs)"

section \<open>The task queue (queue-manager.ts)\<close>

datatype priority = low | normal | high

datatype task_status = pending | delivered | expired

text \<open>
  The id of a task is the string \<^verbatim>\<open>${Date.now()}-${random suffix}\<close>; its two parts are kept
  as a pair. Timestamps are milliseconds since the epoch.
\<close>

record QueuedTask =
  t_id :: "int \<times> string"
  t_projectName :: string
  t_projectPath :: string
  t_message :: string
  t_from :: string
  t_timestamp :: int
  t_priority :: priority
  t_status :: task_status

text \<open>
  The queue directory: the files of \<^verbatim>\<open>QUEUE_DIR\<close> by name, in the order \<^verbatim>\<open>readdir\<close> lists
  them. A file holds a serialised task list, or something \<^verbatim>\<open>JSON.parse\<close> or the
  \<^verbatim>\<open>map\<close> over it rejects.
\<close>

datatype queue_file = Tasks "QueuedTask list" | Unreadable

type_synonym queue_dir = "(string, queue_file) jsmap"

definition safeName :: "string \<Rightarrow> string" where
  "safeName projectName =
     toLowerCase (map (\<lambda>c. if is_name_char c then c else CHR ''_'') projectName)"

definition getQueuePath :: "string \<Rightarrow> string" where
  "getQueuePath projectName = safeName projectName @ ''.json''"

definition loadQueue :: "queue_dir \<Rightarrow> string \<Rightarrow> QueuedTask list" where
  "loadQueue d projectName =
     (case Map_get d (getQueuePath projectName) of
        None \<Rightarrow> []
      | Some (Tasks ts) \<Rightarrow> ts
      | Some Unreadable \<Rightarrow> [])"

definition saveQueue :: "string \<Rightarrow> QueuedTask list \<Rightarrow> queue_dir \<Rightarrow> queue_dir" where
  "saveQueue projectName ts d = Map_set (getQueuePath projectName) (Tasks ts) d"

text \<open>The task handed to \<^verbatim>\<open>enqueueTask\<close> has no id and no status yet.\<close>

record new_task =
  n_projectName :: string
  n_projectPath :: string
  n_message :: string
  n_from :: string
  n_timestamp :: int
  n_priority :: priority

definition enqueueTask :: "int \<Rightarrow> string \<Rightarrow> new_task \<Rightarrow> queue_dir \<Rightarrow> QueuedTask \<times> queue_dir" where
  "enqueueTask now rnd task d =
     (let queue = loadQueue d (n_projectName task);
          newTask = \<lparr> t_id = (now, rnd), t_projectName = n_projectName task,
                      t_projectPath = n_projectPath task, t_message = n_message task,
                      t_from = n_from task, t_timestamp = n_timestamp task,
                      t_priority = n_priority task, t_status = pending \<rparr>
      in (newTask, saveQueue (n_projectName task) (queue @ [newTask]) d))"

definition getPendingTasks :: "queue_dir \<Rightarrow> string \<Rightarrow> QueuedTask list" where
  "getPendingTasks d projectName = filter (\<lambda>t. t_status t = pending) (loadQueue d projectName)"

text \<open>\<^verbatim>\<open>find\<close> returns the first task with the id; the assignment changes that task only.\<close>

fun set_delivered :: "int \<times> string \<Rightarrow> QueuedTask list \<Rightarrow> QueuedTask list" where
  "set_delivered taskId [] = []"
| "set_delivered taskId (t # ts) =
     (if t_id t = taskId then t\<lparr>t_status := delivered\<rparr> # ts else t # set_delivered taskId ts)"

definition markTaskDelivered :: "string \<Rightarrow> int \<times> string \<Rightarrow> queue_dir \<Rightarrow> queue_dir" where
  "markTaskDelivered projectName taskId d =
     (let queue = loadQueue d projectName
      in case Array_find (\<lambda>t. t_id t = taskId) queue of
           Some task \<Rightarrow> saveQueue projectName (set_delivered taskId queue) d
         | None \<Rightarrow> d)"

text \<open>
  \<^verbatim>\<open>cleanupOldTasks\<close>: \<open>cutoff\<close> is the date the source computes from the clock and
  \<^verbatim>\<open>daysOld\<close> with \<^verbatim>\<open>setDate(getDate() - daysOld)\<close>, in milliseconds.
\<close>

definition cleanupOldTasks :: "int \<Rightarrow> string \<Rightarrow> queue_dir \<Rightarrow> nat \<times> queue_dir" where
  "cleanupOldTasks cutoff projectName d =
     (let queue = loadQueue d projectName;
          filtered = filter (\<lambda>t. if t_status t = delivered \<and> t_timestamp t < cutoff
                                   then False else True) queue;
          removed = length queue - length filtered
      in (removed, if removed > 0 then saveQueue projectName filtered d else d))"

fun replace_underscores :: "string \<Rightarrow> string" where
  "replace_underscores [] = []"
| "replace_underscores (c # cs) = (if c = CHR ''_'' then CHR ''-'' else c) # replace_underscores cs"

definition listProjectsWithQueues :: "queue_dir \<Rightarrow> string list" where
  "listProjectsWithQueues d =
     map (\<lambda>f. replace_underscores (replace_first ''.json'' [] f))
       (filter (\<lambda>f. endsWith f ''.json'') (Map_keys d))"

record queue_summary =
  q_projectName :: string
  q_pending :: nat
  q_total :: nat

definition getQueueSummary :: "queue_dir \<Rightarrow> queue_summary list" where
  "getQueueSummary d =
     (let projects = listProjectsWithQueues d;
          summaries = map (\<lambda>projectName.
             let queue = loadQueue d projectName
             in \<lparr> q_projectName = projectName,
                  q_pending = length (filter (\<lambda>t. t_status t = pending) queue),
                  q_total = length queue \<rparr>) projects
      in filter (\<lambda>s. q_total s > 0) summaries)"

section \<open>The process supervisor (claude-spawner.ts)\<close>

text \<open>
  The project registry is another module. \<^verbatim>\<open>findProject\<close> is a parameter of every
  operation that calls it: a function from the name asked for to what the awaited call
  gives, a rejection (\<open>Inl\<close> the message) or the project found, if any.
\<close>

record project =
  pr_name :: string
  pr_path :: string
  pr_autoSpawn :: bool

text \<open>
  A launched worker: the project name its listeners close over, the working directory
  and arguments given to \<^verbatim>\<open>spawn\<close>, the pid the operating system reports (none when the
  launch fails after \<^verbatim>\<open>spawn\<close> has returned), whether the \<^verbatim>\<open>exit\<close> and \<^verbatim>\<open>error\<close> listeners
  are attached, whether \<^verbatim>\<open>SIGTERM\<close> was sent to it, and whether it has ended. The
  \<^verbatim>\<open>ChildProcess\<close> handle of the source is the position of the worker in the list of all
  workers launched so far.
\<close>

record child =
  c_projectName :: string
  c_cwd :: string
  c_args :: "string list"
  c_pid :: "nat option"
  c_listening :: bool
  c_signalled :: bool
  c_exited :: bool

record SpawnedProcess =
  sp_projectName :: string
  sp_process :: nat
  sp_startTime :: int
  sp_initialPrompt :: "string option"
  sp_onOutput :: bool

record supervisor =
  activeProcesses :: "(string, SpawnedProcess) jsmap"
  children :: "child list"

datatype spawn_message =
    AlreadyRunning
  | NotInRegistry
  | Started
  | FailedToSpawn string

record spawn_result =
  sr_success :: bool
  sr_message :: spawn_message
  sr_pid :: "nat option"

text \<open>A change of the worker behind a handle; a handle is always one of a launched worker.\<close>

definition update_child :: "nat \<Rightarrow> (child \<Rightarrow> child) \<Rightarrow> child list \<Rightarrow> child list" where
  "update_child i f cs = (case drop i cs of [] \<Rightarrow> cs | c # rest \<Rightarrow> cs[i := f c])"

text \<open>
  \<^verbatim>\<open>spawnClaude\<close> from the \<^verbatim>\<open>try\<close> to the bookkeeping entry (lines 76 to 99). \<open>osSpawn\<close> is what
  \<^verbatim>\<open>child_process.spawn\<close> does at this call: it throws (\<open>Inl\<close> the message) or returns the
  handle of the worker, with the pid if the launch succeeded. \<^verbatim>\<open>loadEnvFile\<close> catches its
  own errors and only feeds the environment of the worker.
\<close>

definition spawn_launch ::
  "project \<Rightarrow> string + nat option \<Rightarrow> int \<Rightarrow> string \<Rightarrow> string option \<Rightarrow> bool \<Rightarrow> supervisor \<Rightarrow>
   (string + nat) \<times> supervisor" where
  "spawn_launch project osSpawn now projectName initialPrompt onOutput s =
     (case osSpawn of
        Inl err \<Rightarrow> (Inl err, s)
      | Inr p \<Rightarrow>
          (let claudeProcess = length (children s);
               args = (case initialPrompt of
                         None \<Rightarrow> []
                       | Some prompt \<Rightarrow> if prompt = [] then [] else [prompt]);
               launched = \<lparr> c_projectName = projectName, c_cwd = pr_path project,
                            c_args = args, c_pid = p, c_listening = False,
                            c_signalled = False, c_exited = False \<rparr>;
               entry = \<lparr> sp_projectName = projectName, sp_process = claudeProcess,
                         sp_startTime = now, sp_initialPrompt = initialPrompt,
                         sp_onOutput = onOutput \<rparr>
           in (Inr claudeProcess,
               s\<lparr> children := children s @ [launched],
                  activeProcesses := Map_set projectName entry (activeProcesses s) \<rparr>)))"

text \<open>
  \<^verbatim>\<open>spawnClaude\<close> from the awaited \<^verbatim>\<open>touchProject\<close> to the end (lines 102 to 165). \<open>touch\<close>
  is what \<^verbatim>\<open>touchProject\<close> does: it throws (\<open>Some\<close> the message), and the \<^verbatim>\<open>catch\<close> answers
  with the failure while the worker is launched and its entry set, or it returns, and the
  listeners are attached. The output listeners change no state.
\<close>

definition spawn_finish :: "string option \<Rightarrow> nat \<Rightarrow> supervisor \<Rightarrow> spawn_result \<times> supervisor" where
  "spawn_finish touch claudeProcess s =
     (case touch of
        Some err \<Rightarrow> (\<lparr> sr_success = False, sr_message = FailedToSpawn err, sr_pid = None \<rparr>, s)
      | None \<Rightarrow>
          (\<lparr> sr_success = True, sr_message = Started,
             sr_pid = (case drop claudeProcess (children s) of
                         [] \<Rightarrow> None | c # rest \<Rightarrow> c_pid c) \<rparr>,
           s\<lparr> children := update_child claudeProcess (\<lambda>c. c\<lparr> c_listening := True \<rparr>)
                              (children s) \<rparr>))"

text \<open>
  \<^verbatim>\<open>spawnClaude\<close> from the point where the awaited \<^verbatim>\<open>findProject\<close> has answered with
  \<open>found\<close> (line 68 on). The test of line 60 is not made again here: other calls and events
  may have run while the call was waiting. A rejection of \<^verbatim>\<open>findProject\<close> is outside the
  \<^verbatim>\<open>try\<close> and rejects the call (\<open>Inl\<close>).
\<close>

definition spawn_resume ::
  "string + project option \<Rightarrow> string + nat option \<Rightarrow> string option \<Rightarrow> int \<Rightarrow>
   string \<Rightarrow> string option \<Rightarrow> bool \<Rightarrow> supervisor \<Rightarrow> string + spawn_result \<times> supervisor" where
  "spawn_resume found osSpawn touch now projectName initialPrompt onOutput s =
     (case found of
        Inl err \<Rightarrow> Inl err
      | Inr None \<Rightarrow> Inr (\<lparr> sr_success = False, sr_message = NotInRegistry, sr_pid = None \<rparr>, s)
      | Inr (Some project) \<Rightarrow>
          (case spawn_launch project osSpawn now projectName initialPrompt onOutput s of
             (Inl err, s1) \<Rightarrow>
               Inr (\<lparr> sr_success = False, sr_message = FailedToSpawn err, sr_pid = None \<rparr>, s1)
           | (Inr claudeProcess, s1) \<Rightarrow> Inr (spawn_finish touch claudeProcess s1)))"

text \<open>A call of \<^verbatim>\<open>spawnClaude\<close> that nothing else runs into while it waits.\<close>

definition spawnClaude ::
  "(string \<Rightarrow> string + project option) \<Rightarrow> string + nat option \<Rightarrow> string option \<Rightarrow> int \<Rightarrow>
   string \<Rightarrow> string option \<Rightarrow> bool \<Rightarrow> supervisor \<Rightarrow> string + spawn_result \<times> supervisor" where
  "spawnClaude findProject osSpawn touch now projectName initialPrompt onOutput s =
     (if Map_has (activeProcesses s) projectName
      then Inr (\<lparr> sr_success = False, sr_message = AlreadyRunning, sr_pid = None \<rparr>, s)
      else spawn_resume (findProject projectName) osSpawn touch now projectName initialPrompt
             onOutput s)"

text \<open>
  The \<^verbatim>\<open>exit\<close> or \<^verbatim>\<open>error\<close> event of the worker behind handle \<open>i\<close>: the worker has ended, and
  its listeners, if attached, delete the entry of the project name they were made for,
  whichever worker that entry stands for by then.
\<close>

definition worker_ends :: "nat \<Rightarrow> supervisor \<Rightarrow> supervisor" where
  "worker_ends i s =
     (case drop i (children s) of
        [] \<Rightarrow> s
      | c # rest \<Rightarrow>
          s\<lparr> children := update_child i (\<lambda>c. c\<lparr> c_exited := True \<rparr>) (children s),
             activeProcesses :=
               (if c_listening c then Map_delete (c_projectName c) (activeProcesses s)
                else activeProcesses s) \<rparr>)"

text \<open>
  \<open>osKill\<close>: \<^verbatim>\<open>process.kill\<close> throws (\<open>Some\<close> the message) or sends the signal. The entry is
  deleted at once; the worker ends when its \<^verbatim>\<open>exit\<close> event comes.
\<close>

definition killClaude :: "string option \<Rightarrow> string \<Rightarrow> supervisor \<Rightarrow> bool \<times> supervisor" where
  "killClaude osKill projectName s =
     (case Map_get (activeProcesses s) projectName of
        None \<Rightarrow> (False, s)
      | Some spawned \<Rightarrow>
          (case osKill of
             Some err \<Rightarrow> (False, s)
           | None \<Rightarrow>
               (True,
                s\<lparr> children := update_child (sp_process spawned) (\<lambda>c. c\<lparr> c_signalled := True \<rparr>)
                                   (children s),
                   activeProcesses := Map_delete projectName (activeProcesses s) \<rparr>)))"

definition isClaudeRunning :: "supervisor \<Rightarrow> string \<Rightarrow> bool" where
  "isClaudeRunning s projectName = Map_has (activeProcesses s) projectName"

text \<open>
  What happens to the supervisor, one thing at a time on the single event loop: a call
  of \<^verbatim>\<open>spawnClaude\<close> run to its end; a call of \<^verbatim>\<open>spawnClaude\<close> that made its test of line
  60 in an earlier state, where the project had no entry, and goes on now that
  \<^verbatim>\<open>findProject\<close> has answered; a call of \<^verbatim>\<open>killClaude\<close>; and the end of a worker. A call
  carries its own answers from the registry and the operating system.
\<close>

record spawn_call =
  sc_findProject :: "string \<Rightarrow> string + project option"
  sc_osSpawn :: "string + nat option"
  sc_touch :: "string option"
  sc_now :: int
  sc_projectName :: string
  sc_initialPrompt :: "string option"
  sc_onOutput :: bool

definition spawn_step :: "supervisor \<Rightarrow> spawn_call \<Rightarrow> supervisor" where
  "spawn_step s c =
     (case spawnClaude (sc_findProject c) (sc_osSpawn c) (sc_touch c) (sc_now c)
             (sc_projectName c) (sc_initialPrompt c) (sc_onOutput c) s of
        Inl err \<Rightarrow> s
      | Inr (result, s') \<Rightarrow> s')"

definition resume_step :: "supervisor \<Rightarrow> spawn_call \<Rightarrow> supervisor" where
  "resume_step s c =
     (case spawn_resume (sc_findProject c (sc_projectName c)) (sc_osSpawn c) (sc_touch c)
             (sc_now c) (sc_projectName c) (sc_initialPrompt c) (sc_onOutput c) s of
        Inl err \<Rightarrow> s
      | Inr (result, s') \<Rightarrow> s')"

datatype supervisor_event =
    SpawnCalled spawn_call
  | SpawnResumed spawn_call
  | KillCalled "string option" string
  | WorkerEnds nat

fun supervisor_step :: "supervisor \<Rightarrow> supervisor_event \<Rightarrow> supervisor" where
  "supervisor_step s (SpawnCalled c) = spawn_step s c"
| "supervisor_step s (SpawnResumed c) = resume_step s c"
| "supervisor_step s (KillCalled osKill projectName) = snd (killClaude osKill projectName s)"
| "supervisor_step s (WorkerEnds i) = worker_ends i s"

definition supervise :: "supervisor \<Rightarrow> supervisor_event list \<Rightarrow> supervisor" where
  "supervise s evs = foldl supervisor_step s evs"

text \<open>
  The workers launched for \<open>projectName\<close> that run: the operating system gave a pid, no
  signal was sent to them and they have not ended.
\<close>

definition running_for :: "supervisor \<Rightarrow> string \<Rightarrow> child list" where
  "running_for s projectName =
     filter (\<lambda>c. c_projectName c = projectName \<and> c_pid c \<noteq> None \<and> \<not> c_signalled c
                  \<and> \<not> c_exited c) (children s)"

definition no_supervisor :: supervisor where
  "no_supervisor = \<lparr> activeProcesses = [], children = [] \<rparr>"

section \<open>The bridge (index.ts): sessions, inbox, pending questions\<close>

datatype session_status = active | idle

record ClaudeSession =
  s_id :: string
  s_projectName :: string
  s_projectPath :: string
  s_startTime :: int
  s_lastActivity :: int
  s_status :: session_status

definition SESSION_TIMEOUT :: int where
  "SESSION_TIMEOUT = 30 * 60 * 1000"

record QueuedMessage =
  m_from :: string
  m_message :: string
  m_timestamp :: int
  m_read :: bool
  m_sessionId :: "string option"

text \<open>
  A pending question holds the \<^verbatim>\<open>resolve\<close> function of the promise the \<^verbatim>\<open>/ask\<close> call awaits
  and its timer. Promises and timers are numbered as they are created. An armed timer
  carries what its callback closes over: the question id to delete and the promise to
  reject. Every call of a \<^verbatim>\<open>resolve\<close> or \<^verbatim>\<open>reject\<close> function is recorded, in order.
\<close>

record pending_question =
  pq_resolve :: nat
  pq_timeout :: nat

datatype settlement = Resolved string | Rejected string

record bridge =
  ENABLED :: bool
  chatId :: "string option"
  activeSessions :: "(string, ClaudeSession) jsmap"
  messageQueue :: "QueuedMessage list"
  pendingQuestions :: "(nat, pending_question) jsmap"
  lastMessageSession :: "string option"
  spawner :: supervisor
  queues :: queue_dir
  timers :: "(nat, nat \<times> nat) jsmap"
  settlements :: "(nat \<times> settlement) list"
  nextHandle :: nat

text \<open>The state when the module has been loaded.\<close>

definition startup :: "bool \<Rightarrow> string option \<Rightarrow> queue_dir \<Rightarrow> bridge" where
  "startup enabled chat d =
     \<lparr> ENABLED = enabled, chatId = chat, activeSessions = [], messageQueue = [],
       pendingQuestions = [], lastMessageSession = None, spawner = no_supervisor,
       queues = d, timers = [], settlements = [], nextHandle = 0 \<rparr>"

text \<open>A request field that is missing or the empty string is falsy.\<close>

definition falsy :: "string option \<Rightarrow> bool" where
  "falsy x = (case x of None \<Rightarrow> True | Some v \<Rightarrow> v = [])"

subsection \<open>The session registry\<close>

text \<open>The expiry sweep: the loop over \<^verbatim>\<open>activeSessions.entries()\<close>, deleting as it goes.\<close>

fun sweep_loop ::
  "int \<Rightarrow> (string \<times> ClaudeSession) list \<Rightarrow> (string, ClaudeSession) jsmap \<Rightarrow>
   (string, ClaudeSession) jsmap" where
  "sweep_loop now [] m = m"
| "sweep_loop now ((sessionId, session) # entries) m =
     sweep_loop now entries
       (if now - s_lastActivity session > SESSION_TIMEOUT then Map_delete sessionId m else m)"

definition sweep :: "int \<Rightarrow> bridge \<Rightarrow> bridge" where
  "sweep now b = b\<lparr> activeSessions := sweep_loop now (activeSessions b) (activeSessions b) \<rparr>"

datatype register_reply = Register400 | RegisterOk string string

definition session_register ::
  "int \<Rightarrow> string option \<Rightarrow> string option \<Rightarrow> string option \<Rightarrow> bridge \<Rightarrow>
   register_reply \<times> bridge" where
  "session_register now sessionId projectName projectPath b =
     (if falsy sessionId \<or> falsy projectName \<or> falsy projectPath then (Register400, b)
      else
        (let sid = the sessionId; pn = the projectName; pp = the projectPath
         in case Map_get (activeSessions b) sid of
              Some existing \<Rightarrow>
                (RegisterOk sid pn,
                 b\<lparr> activeSessions :=
                      Map_set sid (existing\<lparr> s_lastActivity := now, s_status := active \<rparr>)
                        (activeSessions b) \<rparr>)
            | None \<Rightarrow>
                (RegisterOk sid pn,
                 b\<lparr> activeSessions :=
                      Map_set sid \<lparr> s_id = sid, s_projectName = pn, s_projectPath = pp,
                                    s_startTime = now, s_lastActivity = now,
                                    s_status = active \<rparr>
                        (activeSessions b) \<rparr>)))"

datatype heartbeat_reply = Heartbeat400 | Heartbeat404 | HeartbeatOk

definition session_heartbeat :: "int \<Rightarrow> string option \<Rightarrow> bridge \<Rightarrow> heartbeat_reply \<times> bridge" where
  "session_heartbeat now sessionId b =
     (if falsy sessionId then (Heartbeat400, b)
      else case Map_get (activeSessions b) (the sessionId) of
             Some session \<Rightarrow>
               (HeartbeatOk,
                b\<lparr> activeSessions :=
                     Map_set (the sessionId)
                       (session\<lparr> s_lastActivity := now, s_status := active \<rparr>)
                       (activeSessions b) \<rparr>)
           | None \<Rightarrow> (Heartbeat404, b))"

record session_snapshot =
  v_id :: string
  v_projectName :: string
  v_projectPath :: string
  v_startTime :: int
  v_lastActivity :: int
  v_status :: session_status
  v_idleMinutes :: int

definition snapshot :: "int \<Rightarrow> ClaudeSession \<Rightarrow> session_snapshot" where
  "snapshot now s =
     \<lparr> v_id = s_id s, v_projectName = s_projectName s, v_projectPath = s_projectPath s,
       v_startTime = s_startTime s, v_lastActivity = s_lastActivity s, v_status = s_status s,
       v_idleMinutes = (now - s_lastActivity s) div 60000 \<rparr>"

definition listSessions :: "int \<Rightarrow> bridge \<Rightarrow> session_snapshot list" where
  "listSessions now b = map (snapshot now) (Map_values (activeSessions b))"

subsection \<open>The generic inbox\<close>

text \<open>
  \<^verbatim>\<open>/messages/read\<close>: \<open>count\<close> is the integer in the request body, if any; zero is falsy,
  as a missing count is. The loop marks unread messages while fewer than \<open>toMark\<close> have
  been marked.
\<close>

fun mark_loop :: "int \<Rightarrow> int \<Rightarrow> QueuedMessage list \<Rightarrow> int \<times> QueuedMessage list" where
  "mark_loop toMark marked [] = (marked, [])"
| "mark_loop toMark marked (msg # rest) =
     (if \<not> m_read msg \<and> marked < toMark
      then (let (n, rest') = mark_loop toMark (marked + 1) rest
            in (n, msg\<lparr> m_read := True \<rparr> # rest'))
      else (let (n, rest') = mark_loop toMark marked rest in (n, msg # rest')))"

definition unread :: "QueuedMessage list \<Rightarrow> QueuedMessage list" where
  "unread q = filter (\<lambda>m. \<not> m_read m) q"

definition messages_read :: "int option \<Rightarrow> bridge \<Rightarrow> int \<times> bridge" where
  "messages_read count b =
     (let toMark = (case count of
                      None \<Rightarrow> int (length (unread (messageQueue b)))
                    | Some n \<Rightarrow> if n = 0 then int (length (unread (messageQueue b))) else n);
          (marked, q) = mark_loop toMark 0 (messageQueue b)
      in (marked, b\<lparr> messageQueue := q \<rparr>))"

subsection \<open>Inbound text messages\<close>

text \<open>
  The regular expression \<^verbatim>\<open>^([a-zA-Z0-9-_]+):\s*(.+)\<close>. The name is the longest run of name
  characters, which a colon must follow. Then \<^verbatim>\<open>\s*\<close> takes the longest run of white space
  and gives characters back, one at a time, until \<^verbatim>\<open>(.+)\<close> finds a character to start
  at; \<^verbatim>\<open>(.+)\<close> runs up to the next line terminator.
\<close>

fun match_rest :: "nat \<Rightarrow> string \<Rightarrow> string option" where
  "match_rest k s =
     (case drop k s of
        c # cs \<Rightarrow> if is_dot c then Some (takeWhile is_dot (c # cs))
                  else (case k of 0 \<Rightarrow> None | Suc j \<Rightarrow> match_rest j s)
      | [] \<Rightarrow> (case k of 0 \<Rightarrow> None | Suc j \<Rightarrow> match_rest j s))"

definition projectMatch :: "string \<Rightarrow> (string \<times> string) option" where
  "projectMatch message =
     (let targetProject = takeWhile is_name_char message
      in if targetProject = [] then None
         else case dropWhile is_name_char message of
                [] \<Rightarrow> None
              | c # rest \<Rightarrow>
                  if c \<noteq> CHR '':'' then None
                  else (case match_rest (length (takeWhile is_space rest)) rest of
                          None \<Rightarrow> None
                        | Some actualMessage \<Rightarrow> Some (targetProject, actualMessage)))"

text \<open>
  The reply the handler sends last, one constructor for each \<^verbatim>\<open>ctx.reply\<close> of the source;
  \<open>AutoSpawning\<close> is the reply sent before the spawn, \<open>FailedToProcess\<close> the one of the
  \<^verbatim>\<open>catch\<close> branch.
\<close>

datatype text_reply =
    AnswerReceived
  | SentToActiveSession string
  | AutoSpawning
  | ClaudeStarted "nat option"
  | AutoSpawnFailedQueued spawn_message
  | QueuedOffline
  | QueuedNotRegistered
  | FailedToProcess string
  | AutoRouted string
  | MessageReceived

text \<open>
  What a handler call meets outside the program: the clock, the random suffix of a task
  id, the project registry (\<^verbatim>\<open>findProject\<close> and \<^verbatim>\<open>touchProject\<close>), the operating system's
  answer to a spawn, whether writing a queue file throws, and whether sending a given
  reply throws (\<open>Some\<close> the message of the error).
\<close>

record env =
  e_now :: int
  e_rnd :: string
  e_findProject :: "string \<Rightarrow> string + project option"
  e_osSpawn :: "string + nat option"
  e_touch :: "string option"
  e_write :: "string option"
  e_reply :: "text_reply \<Rightarrow> string option"

definition queued :: "env \<Rightarrow> string \<Rightarrow> string \<Rightarrow> string \<Rightarrow> string \<Rightarrow> queue_dir \<Rightarrow> queue_dir" where
  "queued e sender targetProject path actualMessage d =
     snd (enqueueTask (e_now e) (e_rnd e)
            \<lparr> n_projectName = targetProject, n_projectPath = path, n_message = actualMessage,
              n_from = sender, n_timestamp = e_now e, n_priority = normal \<rparr> d)"

text \<open>
  Inside the \<^verbatim>\<open>try\<close> block a step either goes on or throws; what was done before the
  throw stays done. \<open>Inl\<close> carries the message of the error and the state reached.
\<close>

definition reply_sent :: "env \<Rightarrow> text_reply \<Rightarrow> bridge \<Rightarrow> string \<times> bridge + text_reply \<times> bridge" where
  "reply_sent e r b = (case e_reply e r of Some err \<Rightarrow> Inl (err, b) | None \<Rightarrow> Inr (r, b))"

definition enqueued ::
  "env \<Rightarrow> string \<Rightarrow> string \<Rightarrow> string \<Rightarrow> string \<Rightarrow> text_reply \<Rightarrow> bridge \<Rightarrow>
   string \<times> bridge + text_reply \<times> bridge" where
  "enqueued e sender targetProject path actualMessage r b =
     (case e_write e of
        Some err \<Rightarrow> Inl (err, b)
      | None \<Rightarrow>
          reply_sent e r
            (b\<lparr> queues := queued e sender targetProject path actualMessage (queues b) \<rparr>))"

text \<open>The body of the \<^verbatim>\<open>try\<close> block: no live route, so the project registry decides.\<close>

definition try_offline ::
  "env \<Rightarrow> string \<Rightarrow> string \<Rightarrow> string \<Rightarrow> bridge \<Rightarrow> string \<times> bridge + text_reply \<times> bridge" where
  "try_offline e sender targetProject actualMessage b =
     (case e_findProject e targetProject of
        Inl err \<Rightarrow> Inl (err, b)
      | Inr (Some project) \<Rightarrow>
          if pr_autoSpawn project then
            (case e_reply e AutoSpawning of
               Some err \<Rightarrow> Inl (err, b)
             | None \<Rightarrow>
                 (case spawnClaude (e_findProject e) (e_osSpawn e) (e_touch e) (e_now e)
                         (pr_name project) (Some actualMessage) True (spawner b) of
                    Inl err \<Rightarrow> Inl (err, b)
                  | Inr (result, supervised) \<Rightarrow>
                      if sr_success result
                      then reply_sent e (ClaudeStarted (sr_pid result)) (b\<lparr> spawner := supervised \<rparr>)
                      else enqueued e sender targetProject (pr_path project) actualMessage
                             (AutoSpawnFailedQueued (sr_message result))
                             (b\<lparr> spawner := supervised \<rparr>)))
          else enqueued e sender targetProject (pr_path project) actualMessage QueuedOffline b
      | Inr None \<Rightarrow>
          enqueued e sender targetProject ''/unknown'' actualMessage QueuedNotRegistered b)"

text \<open>
  The \<^verbatim>\<open>try\<close> with its \<^verbatim>\<open>catch\<close>, which replies with the message of the error; that last
  reply is taken to be delivered.
\<close>

definition route_offline :: "env \<Rightarrow> string \<Rightarrow> string \<Rightarrow> string \<Rightarrow> bridge \<Rightarrow> text_reply \<times> bridge" where
  "route_offline e sender targetProject actualMessage b =
     (case try_offline e sender targetProject actualMessage b of
        Inl (err, b') \<Rightarrow> (FailedToProcess err, b')
      | Inr finished \<Rightarrow> finished)"

definition route_project :: "env \<Rightarrow> string \<Rightarrow> string \<Rightarrow> string \<Rightarrow> bridge \<Rightarrow> text_reply \<times> bridge" where
  "route_project e sender targetProject actualMessage b =
     (let activeSession =
            Array_find (\<lambda>s. toLowerCase (s_projectName s) = toLowerCase targetProject)
              (Map_values (activeSessions b));
          claudeActuallyRunning = isClaudeRunning (spawner b) targetProject
      in case activeSession of
           Some session \<Rightarrow>
             if claudeActuallyRunning
             then (SentToActiveSession (s_projectName session),
                   b\<lparr> messageQueue := messageQueue b @
                        [\<lparr> m_from = sender, m_message = actualMessage, m_timestamp = e_now e,
                           m_read = False, m_sessionId = Some (s_id session) \<rparr>] \<rparr>)
             else route_offline e sender targetProject actualMessage
                    (b\<lparr> activeSessions := Map_delete (s_id session) (activeSessions b) \<rparr>)
         | None \<Rightarrow> route_offline e sender targetProject actualMessage b)"

definition route_last :: "env \<Rightarrow> string \<Rightarrow> string \<Rightarrow> bridge \<Rightarrow> text_reply \<times> bridge" where
  "route_last e sender message b =
     (case lastMessageSession b of
        Some target \<Rightarrow>
          if target \<noteq> [] \<and> Map_has (activeSessions b) target
          then (AutoRouted target,
                b\<lparr> messageQueue := messageQueue b @
                     [\<lparr> m_from = sender, m_message = message, m_timestamp = e_now e,
                        m_read = False, m_sessionId = Some target \<rparr>] \<rparr>)
          else (MessageReceived,
                b\<lparr> messageQueue := messageQueue b @
                     [\<lparr> m_from = sender, m_message = message, m_timestamp = e_now e,
                        m_read = False, m_sessionId = None \<rparr>] \<rparr>)
      | None \<Rightarrow>
          (MessageReceived,
           b\<lparr> messageQueue := messageQueue b @
                [\<lparr> m_from = sender, m_message = message, m_timestamp = e_now e,
                   m_read = False, m_sessionId = None \<rparr>] \<rparr>))"

definition route_text :: "env \<Rightarrow> string \<Rightarrow> string \<Rightarrow> bridge \<Rightarrow> text_reply \<times> bridge" where
  "route_text e sender message b =
     (case projectMatch message of
        Some (targetProject, actualMessage) \<Rightarrow>
          route_project e sender targetProject actualMessage b
      | None \<Rightarrow> route_last e sender message b)"

text \<open>
  The handler \<^verbatim>\<open>bot.on('text')\<close>. A question id is the decimal string of the clock, never
  empty, so the test of \<^verbatim>\<open>questionId\<close> asks only whether the map has a first key.
\<close>

definition on_text :: "env \<Rightarrow> string \<Rightarrow> string \<Rightarrow> bridge \<Rightarrow> text_reply \<times> bridge" where
  "on_text e sender message b =
     (case Map_keys (pendingQuestions b) of
        questionId # others \<Rightarrow>
          (case Map_get (pendingQuestions b) questionId of
             Some q \<Rightarrow>
               (AnswerReceived,
                b\<lparr> timers := Map_delete (pq_timeout q) (timers b),
                   pendingQuestions := Map_delete questionId (pendingQuestions b),
                   settlements := settlements b @ [(pq_resolve q, Resolved message)] \<rparr>)
           | None \<Rightarrow> route_text e sender message b)
      | [] \<Rightarrow> route_text e sender message b)"

subsection \<open>Notifications and questions\<close>

datatype notify_reply = Notify503 | Notify400 | NotifyOk | Notify500

text \<open>\<open>sent\<close>: whether the chat transport accepts the message.\<close>

definition notify ::
  "int \<Rightarrow> string option \<Rightarrow> string option \<Rightarrow> bool \<Rightarrow> bridge \<Rightarrow> notify_reply \<times> bridge" where
  "notify now msg sessionId sent b =
     (if \<not> ENABLED b then (Notify503, b)
      else if falsy (chatId b) then (Notify400, b)
      else if falsy msg then (Notify400, b)
      else
        (let b' = (if falsy sessionId then b
                   else case Map_get (activeSessions b) (the sessionId) of
                          Some session \<Rightarrow>
                            b\<lparr> activeSessions :=
                                 Map_set (the sessionId) (session\<lparr> s_lastActivity := now \<rparr>)
                                   (activeSessions b),
                               lastMessageSession := sessionId \<rparr>
                        | None \<Rightarrow> b)
         in (if sent then NotifyOk else Notify500, b')))"

datatype ask_reply = Ask400 | Ask500 | AskWaiting nat

text \<open>
  \<^verbatim>\<open>/ask\<close> up to the point where it awaits the promise: \<open>now\<close> is the clock, whose decimal
  string is the question id. The reply \<open>AskWaiting p\<close> stands for the suspended call that
  answers when promise \<open>p\<close> is settled.
\<close>

definition ask :: "nat \<Rightarrow> string option \<Rightarrow> bool \<Rightarrow> bridge \<Rightarrow> ask_reply \<times> bridge" where
  "ask now question sent b =
     (if falsy (chatId b) then (Ask400, b)
      else if falsy question then (Ask400, b)
      else if \<not> sent then (Ask500, b)
      else
        (let questionId = now; h = nextHandle b
         in (AskWaiting h,
             b\<lparr> nextHandle := h + 1,
                timers := Map_set h (questionId, h) (timers b),
                pendingQuestions :=
                  Map_set questionId \<lparr> pq_resolve = h, pq_timeout = h \<rparr> (pendingQuestions b) \<rparr>)))"

text \<open>The callback of timer \<open>t\<close>; a timer that was cleared or has fired does nothing.\<close>

definition timer_fires :: "nat \<Rightarrow> bridge \<Rightarrow> bridge" where
  "timer_fires t b =
     (case Map_get (timers b) t of
        None \<Rightarrow> b
      | Some (questionId, p) \<Rightarrow>
          b\<lparr> timers := Map_delete t (timers b),
             pendingQuestions := Map_delete questionId (pendingQuestions b),
             settlements := settlements b @ [(p, Rejected ''Timeout waiting for answer'')] \<rparr>)"

text \<open>What the \<^verbatim>\<open>/ask\<close> call that awaits promise \<open>p\<close> gets: the first settlement of \<open>p\<close>.\<close>

definition outcome :: "bridge \<Rightarrow> nat \<Rightarrow> settlement option" where
  "outcome b p = map_of (settlements b) p"

text \<open>The events of the question registry, one at a time on the single event loop.\<close>

datatype event =
    AskCalled nat "string option" bool
  | TimerFires nat
  | TextArrives env string string

fun step :: "bridge \<Rightarrow> event \<Rightarrow> bridge" where
  "step b (AskCalled now question sent) = snd (ask now question sent b)"
| "step b (TimerFires t) = timer_fires t b"
| "step b (TextArrives e sender message) = snd (on_text e sender message b)"

definition run :: "bridge \<Rightarrow> event list \<Rightarrow> bridge" where
  "run b evs = foldl step b evs"

section \<open>Invariants\<close>

text \<open>
  The invariant of the question registry: the timer of every pending entry is armed and
  carries the entry's key and promise; an armed timer has the number of its promise,
  which is not settled; and the three maps have one entry for each key.
\<close>

definition questions_ok :: "bridge \<Rightarrow> bool" where
  "questions_ok b =
     ((\<forall>entry \<in> set (pendingQuestions b).
          pq_resolve (snd entry) = pq_timeout (snd entry)
          \<and> Map_get (timers b) (pq_timeout (snd entry)) = Some (fst entry, pq_resolve (snd entry)))
      \<and> (\<forall>timer \<in> set (timers b).
            fst timer = snd (snd timer) \<and> fst timer < nextHandle b
            \<and> snd (snd timer) \<notin> fst ` set (settlements b))
      \<and> (\<forall>p \<in> fst ` set (settlements b). p < nextHandle b)
      \<and> distinct (map fst (settlements b))
      \<and> distinct (map fst (timers b))
      \<and> distinct (map fst (pendingQuestions b)))"

section \<open>States used to instantiate the theorems\<close>

definition example_session :: "string \<Rightarrow> string \<Rightarrow> int \<Rightarrow> ClaudeSession" where
  "example_session sessionId projectName t =
     \<lparr> s_id = sessionId, s_projectName = projectName, s_projectPath = ''/work'',
       s_startTime = t, s_lastActivity = t, s_status = active \<rparr>"

definition example_bridge :: bridge where
  "example_bridge =
     (startup True (Some ''42'') [])
       \<lparr> activeSessions := [(''a'', example_session ''a'' ''Foo'' 0),
                            (''b'', example_session ''b'' ''Bar'' 1000000)] \<rparr>"

definition example_message :: "string \<Rightarrow> bool \<Rightarrow> QueuedMessage" where
  "example_message text seen =
     \<lparr> m_from = ''user'', m_message = text, m_timestamp = 0, m_read = seen, m_sessionId = None \<rparr>"

definition example_inbox :: bridge where
  "example_inbox =
     (startup True (Some ''42'') [])
       \<lparr> messageQueue := [example_message ''one'' False, example_message ''two'' True,
                          example_message ''three'' False, example_message ''four'' False] \<rparr>"

definition example_task :: "string \<Rightarrow> string \<Rightarrow> int \<Rightarrow> task_status \<Rightarrow> QueuedTask" where
  "example_task suffix projectName t st =
     \<lparr> t_id = (t, suffix), t_projectName = projectName, t_projectPath = ''/work'',
       t_message = ''build it'', t_from = ''user'', t_timestamp = t, t_priority = normal,
       t_status = st \<rparr>"

definition example_queues :: queue_dir where
  "example_queues =
     [(''foo.json'', Tasks [example_task ''a'' ''Foo'' 10 delivered,
                            example_task ''b'' ''Foo'' 20 pending,
                            example_task ''c'' ''Foo'' 30 expired,
                            example_task ''d'' ''Foo'' 2000 delivered])]"

definition example_project :: "string \<Rightarrow> bool \<Rightarrow> project" where
  "example_project projectName auto =
     \<lparr> pr_name = projectName, pr_path = ''/work'', pr_autoSpawn = auto \<rparr>"

definition example_registry :: "string \<Rightarrow> string + project option" where
  "example_registry projectName =
     (if projectName = ''Bar'' then Inr (Some (example_project ''Bar'' True))
      else if projectName = ''Foo'' then Inr (Some (example_project ''Foo'' False))
      else Inr None)"

definition example_call :: "nat \<Rightarrow> spawn_call" where
  "example_call p =
     \<lparr> sc_findProject = example_registry, sc_osSpawn = Inr (Some p), sc_touch = None,
       sc_now = 5, sc_projectName = ''Bar'', sc_initialPrompt = Some ''build it'',
       sc_onOutput = True \<rparr>"

text \<open>An environment in which nothing throws and the launch gives pid 4711.\<close>

definition example_env :: env where
  "example_env =
     \<lparr> e_now = 7000, e_rnd = ''x1'', e_findProject = example_registry,
       e_osSpawn = Inr (Some 4711), e_touch = None, e_write = None,
       e_reply = (\<lambda>r. None) \<rparr>"

text \<open>The example bridge after \<^verbatim>\<open>/ask\<close> was called at clock reading 1000.\<close>

definition example_asking :: bridge where
  "example_asking = snd (ask 1000 (Some ''Deploy now?'') True example_bridge)"

text \<open>The example bridge with a worker running for the project \<open>Foo\<close>.\<close>

definition example_live :: bridge where
  "example_live =
     example_bridge
       \<lparr> spawner := \<lparr> activeProcesses =
                         [(''Foo'', \<lparr> sp_projectName = ''Foo'', sp_process = 0, sp_startTime = 5,
                                      sp_initialPrompt = None, sp_onOutput = False \<rparr>)],
                      children = [\<lparr> c_projectName = ''Foo'', c_cwd = ''/work'', c_args = [],
                                   c_pid = Some 4711, c_listening = True,
                                   c_signalled = False, c_exited = False \<rparr>] \<rparr> \<rparr>"



section \<open>Facts about maps\<close>

lemma Map_get_set: "Map_get (Map_set k v m) k' = (if k' = k then Some v else Map_get m k')"
  by (simp add: Map_get_def Map_set_def update_conv')

lemma Map_get_delete: "Map_get (Map_delete k m) k' = (if k' = k then None else Map_get m k')"
  by (simp add: Map_get_def Map_delete_def delete_conv')

lemma Map_delete_filter: "Map_delete k m = filter (\<lambda>e. fst e \<noteq> k) m"
  by (induction m) (auto simp: Map_delete_def)

lemma Map_set_same: "Map_get m k = Some v \<Longrightarrow> Map_set k v m = m"
  by (simp add: Map_get_def Map_set_def update_triv)

section \<open>The session registry\<close>

lemma sweep_loop_filter:
  "sweep_loop now es m =
     filter (\<lambda>e. fst e \<notin> fst ` {x \<in> set es. now - s_lastActivity (snd x) > SESSION_TIMEOUT}) m"
proof (induction es arbitrary: m)
  case Nil
  then show ?case by simp
next
  case (Cons x es)
  obtain k s where x: "x = (k, s)" by (cases x)
  show ?case
  proof (cases "now - s_lastActivity s > SESSION_TIMEOUT")
    case True
    then have "fst ` {e \<in> set (x # es). now - s_lastActivity (snd e) > SESSION_TIMEOUT}
               = insert k (fst ` {e \<in> set es. now - s_lastActivity (snd e) > SESSION_TIMEOUT})"
      unfolding x by force
    with True show ?thesis
      unfolding x by (simp add: Cons.IH Map_delete_filter conj_commute)
  next
    case False
    then have "{e \<in> set (x # es). now - s_lastActivity (snd e) > SESSION_TIMEOUT}
               = {e \<in> set es. now - s_lastActivity (snd e) > SESSION_TIMEOUT}"
      unfolding x by auto
    with False show ?thesis
      unfolding x by (simp add: Cons.IH)
  qed
qed

lemma sweep_sessions:
  assumes "distinct (Map_keys m)"
  shows "sweep_loop now m m = filter (\<lambda>e. \<not> now - s_lastActivity (snd e) > SESSION_TIMEOUT) m"
proof -
  have "fst e \<in> fst ` {x \<in> set m. now - s_lastActivity (snd x) > SESSION_TIMEOUT}
          \<longleftrightarrow> now - s_lastActivity (snd e) > SESSION_TIMEOUT" if "e \<in> set m" for e
  proof
    assume "fst e \<in> fst ` {x \<in> set m. now - s_lastActivity (snd x) > SESSION_TIMEOUT}"
    then obtain x where "x \<in> set m" "fst x = fst e" "now - s_lastActivity (snd x) > SESSION_TIMEOUT"
      by auto
    moreover have "x = e"
      using assms that \<open>x \<in> set m\<close> \<open>fst x = fst e\<close>
      by (metis Map_keys_def eq_key_imp_eq_value prod.collapse)
    ultimately show "now - s_lastActivity (snd e) > SESSION_TIMEOUT" by simp
  next
    assume "now - s_lastActivity (snd e) > SESSION_TIMEOUT"
    with that show "fst e \<in> fst ` {x \<in> set m. now - s_lastActivity (snd x) > SESSION_TIMEOUT}"
      by auto
  qed
  then show ?thesis
    unfolding sweep_loop_filter by (intro filter_cong) auto
qed

lemma snapshot_inj: "snapshot t s = snapshot t s' \<Longrightarrow> s = s'"
  by (cases s; cases s') (simp add: snapshot_def)

text \<open>
  Claim C7. A session map has one entry for each key. For an entry \<open>(k, s)\<close> of the
  registry and a sweep at time \<open>now\<close>: if the idle time \<open>now - lastActivity\<close> is more than
  30 minutes, the session is gone from the registry and from \<open>listSessions\<close> after the
  sweep; if it is not, the session is still there, the same record, and is listed; and
  before the sweep the session is listed whatever its idle time.
\<close>

theorem sweep_removes_expired_sessions:
  assumes "distinct (Map_keys (activeSessions b))"
      and "(k, s) \<in> set (activeSessions b)"
  shows "(now - s_lastActivity s > SESSION_TIMEOUT \<longrightarrow>
            Map_get (activeSessions (sweep now b)) k = None \<and>
            snapshot t s \<notin> set (listSessions t (sweep now b)))
       \<and> (\<not> now - s_lastActivity s > SESSION_TIMEOUT \<longrightarrow>
            Map_get (activeSessions (sweep now b)) k = Some s \<and>
            snapshot t s \<in> set (listSessions t (sweep now b)))
       \<and> snapshot t s \<in> set (listSessions t b)"
proof -
  let ?keep = "\<lambda>e. \<not> now - s_lastActivity (snd e) > SESSION_TIMEOUT"
  have sw: "activeSessions (sweep now b) = filter ?keep (activeSessions b)"
    by (simp add: sweep_def sweep_sessions [OF assms(1)])
  have d: "distinct (map fst (activeSessions b))"
    using assms(1) by (simp add: Map_keys_def)
  have d': "distinct (map fst (filter ?keep (activeSessions b)))"
    using d by (simp add: distinct_map_filter)
  have before: "snapshot t s \<in> set (listSessions t b)"
    using assms(2) by (force simp: listSessions_def Map_values_def)
  have gone: "Map_get (activeSessions (sweep now b)) k = None \<and>
              snapshot t s \<notin> set (listSessions t (sweep now b))"
    if ex: "now - s_lastActivity s > SESSION_TIMEOUT"
  proof
    have "k \<notin> fst ` set (filter ?keep (activeSessions b))"
    proof
      assume "k \<in> fst ` set (filter ?keep (activeSessions b))"
      then obtain s' where "(k, s') \<in> set (activeSessions b)" "?keep (k, s')" by auto
      with d assms(2) have "s' = s" by (meson eq_key_imp_eq_value)
      with ex \<open>?keep (k, s')\<close> show False by simp
    qed
    then show "Map_get (activeSessions (sweep now b)) k = None"
      by (simp add: sw Map_get_def map_of_eq_None_iff)
    show "snapshot t s \<notin> set (listSessions t (sweep now b))"
    proof
      assume "snapshot t s \<in> set (listSessions t (sweep now b))"
      then obtain e where "e \<in> set (activeSessions b)" "?keep e" "snapshot t (snd e) = snapshot t s"
        by (auto simp: listSessions_def Map_values_def sw)
      then have "snd e = s" by (meson snapshot_inj)
      with ex \<open>?keep e\<close> show False by simp
    qed
  qed
  have kept: "Map_get (activeSessions (sweep now b)) k = Some s \<and>
              snapshot t s \<in> set (listSessions t (sweep now b))"
    if nex: "\<not> now - s_lastActivity s > SESSION_TIMEOUT"
  proof
    have m: "(k, s) \<in> set (filter ?keep (activeSessions b))"
      using assms(2) nex by simp
    then show "Map_get (activeSessions (sweep now b)) k = Some s"
      using d' by (simp add: sw Map_get_def)
    show "snapshot t s \<in> set (listSessions t (sweep now b))"
      using m by (force simp: listSessions_def Map_values_def sw)
  qed
  from before gone kept show ?thesis by blast
qed

theorem sweep_removes_expired_sessions_witness:
  "distinct (Map_keys (activeSessions example_bridge))
   \<and> 2000000 - s_lastActivity (example_session ''a'' ''Foo'' 0) > SESSION_TIMEOUT
   \<and> \<not> 2000000 - s_lastActivity (example_session ''b'' ''Bar'' 1000000) > SESSION_TIMEOUT
   \<and> Map_get (activeSessions (sweep 2000000 example_bridge)) ''a'' = None
   \<and> Map_get (activeSessions (sweep 2000000 example_bridge)) ''b''
       = Some (example_session ''b'' ''Bar'' 1000000)
   \<and> snapshot 2000000 (example_session ''a'' ''Foo'' 0)
       \<in> set (listSessions 2000000 example_bridge)"
  using sweep_removes_expired_sessions
          [of example_bridge "''a''" "example_session ''a'' ''Foo'' 0" 2000000 2000000]
        sweep_removes_expired_sessions
          [of example_bridge "''b''" "example_session ''b'' ''Bar'' 1000000" 2000000 2000000]
  by (simp add: example_bridge_def example_session_def Map_keys_def SESSION_TIMEOUT_def
        startup_def)

text \<open>
  Claim C9. A registration with all three fields present answers with the session id.
  If the id is already registered, the session keeps its project name, project path,
  start time and id, and gets \<open>lastActivity = now\<close> and status active, whatever project
  name and path the call carries; if it is not, a new active session is created with
  \<open>startTime = lastActivity = now\<close>. No other session changes, and registering the same id
  again at the same clock reading, with any project name and path, changes nothing.
\<close>

theorem session_register_idempotent:
  assumes "sessionId \<noteq> []" and "projectName \<noteq> []" and "projectPath \<noteq> []"
  shows "let b' = snd (session_register now (Some sessionId) (Some projectName) (Some projectPath) b)
         in fst (session_register now (Some sessionId) (Some projectName) (Some projectPath) b)
              = RegisterOk sessionId projectName
          \<and> (case Map_get (activeSessions b) sessionId of
                Some existing \<Rightarrow>
                  Map_get (activeSessions b') sessionId
                    = Some (existing\<lparr> s_lastActivity := now, s_status := active \<rparr>)
              | None \<Rightarrow>
                  Map_get (activeSessions b') sessionId
                    = Some \<lparr> s_id = sessionId, s_projectName = projectName,
                             s_projectPath = projectPath, s_startTime = now,
                             s_lastActivity = now, s_status = active \<rparr>)
          \<and> (\<forall>k. k \<noteq> sessionId \<longrightarrow>
                Map_get (activeSessions b') k = Map_get (activeSessions b) k)
          \<and> (\<forall>otherName otherPath. otherName \<noteq> [] \<longrightarrow> otherPath \<noteq> [] \<longrightarrow>
                session_register now (Some sessionId) (Some otherName) (Some otherPath) b'
                  = (RegisterOk sessionId otherName, b'))"
proof (cases "Map_get (activeSessions b) sessionId")
  case None
  with assms show ?thesis
    by (simp add: session_register_def falsy_def Let_def Map_get_set Map_set_same)
next
  case (Some existing)
  with assms show ?thesis
    by (simp add: session_register_def falsy_def Let_def Map_get_set Map_set_same)
qed

theorem session_register_idempotent_witness:
  "Map_get (activeSessions (snd (session_register 500 (Some ''a'') (Some ''Other'') (Some ''/other'')
                                   example_bridge))) ''a''
     = Some ((example_session ''a'' ''Foo'' 0)\<lparr> s_lastActivity := 500 \<rparr>)
   \<and> Map_get (activeSessions (snd (session_register 500 (Some ''c'') (Some ''Baz'') (Some ''/baz'')
                                   example_bridge))) ''c''
     = Some \<lparr> s_id = ''c'', s_projectName = ''Baz'', s_projectPath = ''/baz'', s_startTime = 500,
              s_lastActivity = 500, s_status = active \<rparr>"
  using session_register_idempotent [of "''a''" "''Other''" "''/other''" 500 example_bridge]
        session_register_idempotent [of "''c''" "''Baz''" "''/baz''" 500 example_bridge]
  by (simp add: example_bridge_def example_session_def startup_def Map_get_def Let_def)

section \<open>The generic inbox\<close>

lemma mark_loop_length: "length (snd (mark_loop toMark marked q)) = length q"
  by (induction q arbitrary: marked) (simp_all add: case_prod_beta)

lemma mark_loop_count:
  "fst (mark_loop toMark marked q) =
     (if marked < toMark then min toMark (marked + int (length (unread q))) else marked)"
  by (induction q arbitrary: marked) (auto simp: unread_def case_prod_beta)

lemma mark_loop_unread:
  "int (length (unread (snd (mark_loop toMark marked q)))) =
     int (length (unread q)) - (fst (mark_loop toMark marked q) - marked)"
proof (induction q arbitrary: marked)
  case Nil
  then show ?case by (simp add: unread_def)
next
  case (Cons msg rest)
  show ?case
    using Cons.IH [of marked] Cons.IH [of "marked + 1"]
    by (auto simp: unread_def case_prod_beta)
qed

lemma mark_loop_nth:
  "i < length q \<Longrightarrow>
   snd (mark_loop toMark marked q) ! i =
     (if \<not> m_read (q ! i) \<and> marked + int (length (unread (take i q))) < toMark
      then (q ! i)\<lparr> m_read := True \<rparr> else q ! i)"
proof (induction q arbitrary: marked i)
  case Nil
  then show ?case by simp
next
  case (Cons msg rest)
  show ?case
  proof (cases i)
    case 0
    then show ?thesis by (auto simp: unread_def case_prod_beta)
  next
    case (Suc j)
    with Cons.prems have j: "j < length rest" by simp
    show ?thesis
      using Cons.IH [OF j, of marked] Cons.IH [OF j, of "marked + 1"] Suc
      by (auto simp: unread_def case_prod_beta)
  qed
qed

lemma unread_before:
  assumes "i < length q" and "\<not> m_read (q ! i)"
  shows "length (unread (take i q)) < length (unread q)"
proof -
  have "q = take i q @ q ! i # drop (Suc i) q"
    using assms(1) by (simp add: id_take_nth_drop)
  then have "unread q = unread (take i q) @ unread (q ! i # drop (Suc i) q)"
    unfolding unread_def by (metis filter_append)
  with assms(2) show ?thesis by (simp add: unread_def)
qed

text \<open>
  Claim C10. For a count \<open>n \<ge> 0\<close> in the request, or none, let \<open>u\<close> be the number of unread
  messages and \<open>k\<close> be \<open>u\<close> when the count is missing or zero and \<open>min n u\<close> otherwise. The
  handler answers \<open>k\<close>; the queue keeps its length; message \<open>i\<close> gets \<open>read = True\<close> exactly
  when it was unread and fewer than \<open>k\<close> unread messages stand before it, and is the same
  record otherwise; \<open>u - k\<close> messages stay unread; nothing else in the state changes.
\<close>

theorem messages_read_marks_oldest_unread:
  assumes "case count of None \<Rightarrow> True | Some n \<Rightarrow> 0 \<le> n"
  shows "let q = messageQueue b; u = int (length (unread q));
             k = (case count of None \<Rightarrow> u | Some n \<Rightarrow> if n = 0 then u else min n u);
             q' = messageQueue (snd (messages_read count b))
         in fst (messages_read count b) = k
          \<and> length q' = length q
          \<and> (\<forall>i < length q.
                q' ! i = (if \<not> m_read (q ! i) \<and> int (length (unread (take i q))) < k
                          then (q ! i)\<lparr> m_read := True \<rparr> else q ! i))
          \<and> int (length (unread q')) = u - k
          \<and> snd (messages_read count b) = b\<lparr> messageQueue := q' \<rparr>"
proof -
  define q where "q = messageQueue b"
  define u where "u = int (length (unread q))"
  define toMark where "toMark = (case count of None \<Rightarrow> u | Some n \<Rightarrow> if n = 0 then u else n)"
  define k where "k = (case count of None \<Rightarrow> u | Some n \<Rightarrow> if n = 0 then u else min n u)"
  define q' where "q' = snd (mark_loop toMark 0 q)"
  have res: "messages_read count b = (fst (mark_loop toMark 0 q), b\<lparr> messageQueue := q' \<rparr>)"
    unfolding messages_read_def toMark_def u_def q_def q'_def by (simp add: Let_def case_prod_beta)
  have "0 \<le> u" by (simp add: u_def)
  have tm: "0 \<le> toMark"
    using assms \<open>0 \<le> u\<close> by (simp add: toMark_def split: option.splits)
  have k: "k = min toMark u"
    by (simp add: k_def toMark_def split: option.splits)
  have cnt: "fst (mark_loop toMark 0 q) = k"
    using tm \<open>0 \<le> u\<close> unfolding mark_loop_count k u_def by auto
  have len: "length q' = length q"
    by (simp add: q'_def mark_loop_length)
  have nth: "q' ! i = (if \<not> m_read (q ! i) \<and> int (length (unread (take i q))) < k
                       then (q ! i)\<lparr> m_read := True \<rparr> else q ! i)" if "i < length q" for i
  proof (cases "m_read (q ! i)")
    case True
    then show ?thesis using that by (simp add: q'_def mark_loop_nth)
  next
    case False
    then have "int (length (unread (take i q))) < u"
      using unread_before [OF that] by (simp add: u_def)
    then have "int (length (unread (take i q))) < k \<longleftrightarrow> int (length (unread (take i q))) < toMark"
      by (simp add: k)
    then show ?thesis using that by (simp add: q'_def mark_loop_nth)
  qed
  have unr: "int (length (unread q')) = u - k"
    using mark_loop_unread [of toMark 0 q] cnt by (simp add: q'_def u_def)
  show ?thesis
    using cnt len nth unr
    unfolding Let_def res q_def [symmetric] u_def [symmetric] k_def [symmetric] by simp
qed


theorem messages_read_marks_oldest_unread_witness:
  "(case Some (2::int) of None \<Rightarrow> True | Some n \<Rightarrow> 0 \<le> n)
   \<and> fst (messages_read (Some 2) example_inbox) = 2
   \<and> messageQueue (snd (messages_read (Some 2) example_inbox))
       = [example_message ''one'' True, example_message ''two'' True,
          example_message ''three'' True, example_message ''four'' False]"
  using messages_read_marks_oldest_unread [of "Some 2" example_inbox]
  by (simp add: messages_read_def example_inbox_def example_message_def startup_def unread_def)

section \<open>The task queue\<close>

lemma loadQueue_saveQueue:
  "loadQueue (saveQueue projectName ts d) projectName = ts"
  by (simp add: loadQueue_def saveQueue_def Map_get_set)

lemma Map_get_saveQueue_other:
  "f \<noteq> getQueuePath projectName \<Longrightarrow> Map_get (saveQueue projectName ts d) f = Map_get d f"
  by (simp add: saveQueue_def Map_get_set)

lemma getQueuePath_Foo: "getQueuePath ''Foo'' = ''foo.json''"
  by code_simp

text \<open>
  Claim C8. With \<open>cutoff\<close> the date the cleanup computes, and \<open>old\<close> a task that is
  delivered with a timestamp before the cutoff: the queue of the project after the cleanup
  is the queue before it without its old tasks, in the same order; the number returned is
  the number of old tasks; every task that is pending or expired is still in the queue;
  and no other file of the queue directory changes.
\<close>

theorem cleanupOldTasks_removes_old_delivered:
  "let queue = loadQueue d projectName;
       old = (\<lambda>t. t_status t = delivered \<and> t_timestamp t < cutoff);
       d' = snd (cleanupOldTasks cutoff projectName d)
   in loadQueue d' projectName = filter (\<lambda>t. \<not> old t) queue
    \<and> fst (cleanupOldTasks cutoff projectName d) = length (filter old queue)
    \<and> (\<forall>t \<in> set queue. t_status t \<noteq> delivered \<longrightarrow> t \<in> set (loadQueue d' projectName))
    \<and> (\<forall>f. f \<noteq> getQueuePath projectName \<longrightarrow> Map_get d' f = Map_get d f)"
proof -
  define queue where "queue = loadQueue d projectName"
  define old :: "QueuedTask \<Rightarrow> bool"
    where "old = (\<lambda>t. t_status t = delivered \<and> t_timestamp t < cutoff)"
  define filtered where "filtered = filter (\<lambda>t. \<not> old t) queue"
  define removed where "removed = length queue - length filtered"
  have src: "cleanupOldTasks cutoff projectName d =
               (removed, if removed > 0 then saveQueue projectName filtered d else d)"
    unfolding cleanupOldTasks_def removed_def filtered_def old_def queue_def
    by (simp add: Let_def)
  have "length queue = length (filter old queue) + length filtered"
    unfolding filtered_def by (rule sum_length_filter_compl [symmetric])
  then have removed: "removed = length (filter old queue)"
    by (simp add: removed_def)
  have after: "loadQueue (snd (cleanupOldTasks cutoff projectName d)) projectName = filtered"
  proof (cases "removed > 0")
    case True
    then show ?thesis by (simp add: src loadQueue_saveQueue)
  next
    case False
    with removed have "filter old queue = []" by simp
    then have "filtered = queue"
      unfolding filtered_def by (simp add: filter_empty_conv)
    with False show ?thesis by (simp add: src queue_def)
  qed
  have kept: "t \<in> set filtered" if "t \<in> set queue" "t_status t \<noteq> delivered" for t
    using that by (simp add: filtered_def old_def)
  have others: "Map_get (snd (cleanupOldTasks cutoff projectName d)) f = Map_get d f"
    if "f \<noteq> getQueuePath projectName" for f
    using that by (simp add: src Map_get_saveQueue_other)
  show ?thesis
    unfolding Let_def queue_def [symmetric] old_def [symmetric]
    using after removed kept others by (simp add: src filtered_def)
qed

theorem cleanupOldTasks_removes_old_delivered_witness:
  "loadQueue (snd (cleanupOldTasks 1000 ''Foo'' example_queues)) ''Foo''
     = [example_task ''b'' ''Foo'' 20 pending, example_task ''c'' ''Foo'' 30 expired,
        example_task ''d'' ''Foo'' 2000 delivered]
   \<and> fst (cleanupOldTasks 1000 ''Foo'' example_queues) = 1
   \<and> example_task ''b'' ''Foo'' 20 pending
       \<in> set (loadQueue (snd (cleanupOldTasks 1000 ''Foo'' example_queues)) ''Foo'')"
  using cleanupOldTasks_removes_old_delivered [of example_queues "''Foo''" 1000]
  by (simp add: Let_def loadQueue_def getQueuePath_Foo Map_get_def example_queues_def
        example_task_def)

section \<open>The process supervisor\<close>

lemma spawn_rejected_while_entry_exists:
  "isClaudeRunning s projectName \<Longrightarrow>
   spawnClaude findProject osSpawn touch now projectName initialPrompt onOutput s
     = Inr (\<lparr> sr_success = False, sr_message = AlreadyRunning, sr_pid = None \<rparr>, s)"
  by (simp add: spawnClaude_def isClaudeRunning_def)

text \<open>
  Claim C2, at two sequences of calls for the project \<open>Bar\<close>, from the start. The first
  sentence of the claim holds there: a second spawn right after the first launches
  nothing. Its conclusion does not. First sequence: spawn, kill, spawn, the first worker
  ends, spawn. The \<^verbatim>\<open>exit\<close> listener of the first worker deletes the entry of the second,
  \<open>isClaudeRunning\<close> is false while the second worker runs, and the third spawn launches a
  third worker: the workers with pids 2 and 3 run at the same time, neither signalled nor
  ended. Second sequence: two calls that both made the test of line 60 before either set
  its entry: both launch, and the workers with pids 1 and 2 run at the same time.
\<close>

theorem second_live_worker_for_one_project:
  "map c_pid (children (supervise no_supervisor
                          [SpawnCalled (example_call 1), SpawnCalled (example_call 2)]))
     = [Some 1]
   \<and> \<not> isClaudeRunning
         (supervise no_supervisor
            [SpawnCalled (example_call 1), KillCalled None ''Bar'',
             SpawnCalled (example_call 2), WorkerEnds 0]) ''Bar''
   \<and> map c_pid (running_for
                  (supervise no_supervisor
                     [SpawnCalled (example_call 1), KillCalled None ''Bar'',
                      SpawnCalled (example_call 2), WorkerEnds 0]) ''Bar'')
       = [Some 2]
   \<and> map c_pid (running_for
                  (supervise no_supervisor
                     [SpawnCalled (example_call 1), KillCalled None ''Bar'',
                      SpawnCalled (example_call 2), WorkerEnds 0,
                      SpawnCalled (example_call 3)]) ''Bar'')
       = [Some 2, Some 3]
   \<and> \<not> isClaudeRunning no_supervisor ''Bar''
   \<and> map c_pid (running_for
                  (supervise no_supervisor
                     [SpawnResumed (example_call 1), SpawnResumed (example_call 2)]) ''Bar'')
       = [Some 1, Some 2]"
  by code_simp

section \<open>The queue summary\<close>

text \<open>
  Claim C5, on an empty queue directory: a task is queued for the project \<open>my_app\<close>, and
  another for \<open>my app\<close>, which is stored in the same file. Both tasks are in the queue of
  the project, pending, and the summary is empty: the listing turns the file name
  \<open>my_app.json\<close> into the project name \<open>my-app\<close>, whose queue file \<open>my-app.json\<close> does not
  exist.
\<close>

theorem getQueueSummary_loses_folded_names:
  "(let d1 = snd (enqueueTask 1 ''r1'' \<lparr> n_projectName = ''my_app'', n_projectPath = ''/work'',
                     n_message = ''build it'', n_from = ''user'', n_timestamp = 1,
                     n_priority = normal \<rparr> []);
        d2 = snd (enqueueTask 2 ''r2'' \<lparr> n_projectName = ''my app'', n_projectPath = ''/work'',
                     n_message = ''test it'', n_from = ''user'', n_timestamp = 2,
                     n_priority = normal \<rparr> d1)
    in length (getPendingTasks d1 ''my_app'') = 1
     \<and> getQueueSummary d1 = []
     \<and> length (getPendingTasks d2 ''my app'') = 2
     \<and> Map_keys d2 = [''my_app.json'']
     \<and> listProjectsWithQueues d2 = [''my-app'']
     \<and> getQueueSummary d2 = [])"
  by code_simp

section \<open>Inbound text messages and pending questions\<close>


lemma example_asking_eq:
  "example_asking =
     example_bridge\<lparr> nextHandle := 1, timers := [(0, (1000, 0))],
                     pendingQuestions := [(1000, \<lparr> pq_resolve = 0, pq_timeout = 0 \<rparr>)] \<rparr>"
  by (simp add: example_asking_def ask_def falsy_def example_bridge_def startup_def Map_set_def)

text \<open>
  Claim C3 as stated fails: with a question pending, the message \<open>Foo: hello\<close>, which
  carries the project prefix \<open>Foo\<close>, is consumed as the answer; nothing is delivered or
  queued for \<open>Foo\<close>.
\<close>

theorem prefixed_message_consumed_as_answer:
  "projectMatch ''Foo: hello'' = Some (''Foo'', ''hello'')
   \<and> pendingQuestions example_asking = [(1000, \<lparr> pq_resolve = 0, pq_timeout = 0 \<rparr>)]
   \<and> fst (on_text example_env ''user'' ''Foo: hello'' example_asking) = AnswerReceived
   \<and> outcome (snd (on_text example_env ''user'' ''Foo: hello'' example_asking)) 0
       = Some (Resolved ''Foo: hello'')
   \<and> messageQueue (snd (on_text example_env ''user'' ''Foo: hello'' example_asking)) = []
   \<and> queues (snd (on_text example_env ''user'' ''Foo: hello'' example_asking)) = []
   \<and> fst (route_text example_env ''user'' ''Foo: hello'' example_asking) = QueuedOffline"
  by code_simp

text \<open>
  Claim C3, amended. While a question is pending, the next inbound text message, with
  or without a project prefix, answers the oldest pending entry, the first of the map,
  and only that one: its promise is resolved with the whole text, its timer is cleared
  and the entry is deleted, the other entries stay, and the message is not routed: the
  sessions, the inbox, the queues and the supervisor are unchanged. A message is routed
  only when no question is pending.
\<close>

theorem on_text_answers_oldest_question:
  "(pendingQuestions b = (questionId, q) # others \<longrightarrow>
      on_text e sender message b
        = (AnswerReceived,
           b\<lparr> timers := Map_delete (pq_timeout q) (timers b),
              pendingQuestions := Map_delete questionId (pendingQuestions b),
              settlements := settlements b @ [(pq_resolve q, Resolved message)] \<rparr>)
      \<and> (distinct (Map_keys (pendingQuestions b)) \<longrightarrow>
            pendingQuestions (snd (on_text e sender message b)) = others)
      \<and> activeSessions (snd (on_text e sender message b)) = activeSessions b
      \<and> messageQueue (snd (on_text e sender message b)) = messageQueue b
      \<and> queues (snd (on_text e sender message b)) = queues b
      \<and> spawner (snd (on_text e sender message b)) = spawner b)
   \<and> (pendingQuestions b = [] \<longrightarrow>
        on_text e sender message b = route_text e sender message b)"
proof (intro conjI impI)
  assume p: "pendingQuestions b = (questionId, q) # others"
  then show eq: "on_text e sender message b
        = (AnswerReceived,
           b\<lparr> timers := Map_delete (pq_timeout q) (timers b),
              pendingQuestions := Map_delete questionId (pendingQuestions b),
              settlements := settlements b @ [(pq_resolve q, Resolved message)] \<rparr>)"
    by (simp add: on_text_def Map_keys_def Map_get_def)
  show "pendingQuestions (snd (on_text e sender message b)) = others"
    if "distinct (Map_keys (pendingQuestions b))"
  proof -
    from that p have "questionId \<notin> fst ` set others"
      by (simp add: Map_keys_def)
    then have "filter (\<lambda>e. fst e \<noteq> questionId) others = others"
      by (intro filter_True) force
    with p show ?thesis
      by (simp add: eq Map_delete_filter)
  qed
  show "activeSessions (snd (on_text e sender message b)) = activeSessions b"
    and "messageQueue (snd (on_text e sender message b)) = messageQueue b"
    and "queues (snd (on_text e sender message b)) = queues b"
    and "spawner (snd (on_text e sender message b)) = spawner b"
    by (simp_all add: eq)
next
  assume "pendingQuestions b = []"
  then show "on_text e sender message b = route_text e sender message b"
    by (simp add: on_text_def Map_keys_def)
qed

theorem on_text_answers_oldest_question_witness:
  "pendingQuestions example_asking = (1000, \<lparr> pq_resolve = 0, pq_timeout = 0 \<rparr>) # []
   \<and> distinct (Map_keys (pendingQuestions example_asking))
   \<and> fst (on_text example_env ''user'' ''Foo: hello'' example_asking) = AnswerReceived
   \<and> pendingQuestions (snd (on_text example_env ''user'' ''Foo: hello'' example_asking)) = []
   \<and> pendingQuestions example_bridge = []
   \<and> on_text example_env ''user'' ''Foo: hello'' example_bridge
       = route_text example_env ''user'' ''Foo: hello'' example_bridge"
proof -
  have p: "pendingQuestions example_asking = (1000, \<lparr> pq_resolve = 0, pq_timeout = 0 \<rparr>) # []"
    by (simp add: example_asking_eq)
  have d: "distinct (Map_keys (pendingQuestions example_asking))"
    by (simp add: p Map_keys_def)
  have e: "pendingQuestions example_bridge = []"
    by (simp add: example_bridge_def startup_def)
  from on_text_answers_oldest_question
         [of example_asking 1000 "\<lparr> pq_resolve = 0, pq_timeout = 0 \<rparr>" "[]"
             example_env "''user''" "''Foo: hello''"] p d
  have "fst (on_text example_env ''user'' ''Foo: hello'' example_asking) = AnswerReceived"
    and "pendingQuestions (snd (on_text example_env ''user'' ''Foo: hello'' example_asking)) = []"
    by (simp_all add: Map_delete_def)
  moreover from on_text_answers_oldest_question
         [of example_bridge 0 "\<lparr> pq_resolve = 0, pq_timeout = 0 \<rparr>" "[]"
             example_env "''user''" "''Foo: hello''"] e
  have "on_text example_env ''user'' ''Foo: hello'' example_bridge
          = route_text example_env ''user'' ''Foo: hello'' example_bridge"
    by simp
  ultimately show ?thesis
    using p d e by simp
qed

section \<open>What routing to an offline project changes\<close>

lemma reply_sent_frame:
  "(case reply_sent e r b of Inl (err, b') \<Rightarrow> b' | Inr (r', b') \<Rightarrow> b') = b"
  by (simp add: reply_sent_def split: option.splits)

lemma enqueued_frame:
  "\<exists>d. (case enqueued e sender targetProject path actualMessage r b of
           Inl (err, b') \<Rightarrow> b' | Inr (r', b') \<Rightarrow> b') = b\<lparr> queues := d \<rparr>"
proof (cases "e_write e")
  case None
  then have "(case enqueued e sender targetProject path actualMessage r b of
                Inl (err, b') \<Rightarrow> b' | Inr (r', b') \<Rightarrow> b')
             = b\<lparr> queues := queued e sender targetProject path actualMessage (queues b) \<rparr>"
    by (simp add: enqueued_def reply_sent_frame)
  then show ?thesis by blast
next
  case (Some err)
  then have "(case enqueued e sender targetProject path actualMessage r b of
                Inl (err, b') \<Rightarrow> b' | Inr (r', b') \<Rightarrow> b') = b\<lparr> queues := queues b \<rparr>"
    by (simp add: enqueued_def)
  then show ?thesis by blast
qed

lemma try_offline_frame:
  "\<exists>workers d. (case try_offline e sender targetProject actualMessage b of
                   Inl (err, b') \<Rightarrow> b' | Inr (r', b') \<Rightarrow> b')
                = b\<lparr> spawner := workers, queues := d \<rparr>"
proof -
  have same: "\<exists>workers d. b = b\<lparr> spawner := workers, queues := d \<rparr>"
    by (rule exI [of _ "spawner b"], rule exI [of _ "queues b"]) simp
  have enq: "\<exists>workers d. (case enqueued e sender targetProject path actualMessage r
                                  (b\<lparr> spawner := w \<rparr>) of
                             Inl (err, b') \<Rightarrow> b' | Inr (r', b') \<Rightarrow> b')
                          = b\<lparr> spawner := workers, queues := d \<rparr>" for path r w
  proof -
    from enqueued_frame [of e sender targetProject path actualMessage r "b\<lparr> spawner := w \<rparr>"]
    obtain d where "(case enqueued e sender targetProject path actualMessage r
                            (b\<lparr> spawner := w \<rparr>) of
                       Inl (err, b') \<Rightarrow> b' | Inr (r', b') \<Rightarrow> b')
                    = b\<lparr> spawner := w, queues := d \<rparr>"
      by auto
    then show ?thesis by blast
  qed
  have enq0: "\<exists>workers d. (case enqueued e sender targetProject path actualMessage r b of
                             Inl (err, b') \<Rightarrow> b' | Inr (r', b') \<Rightarrow> b')
                          = b\<lparr> spawner := workers, queues := d \<rparr>" for path r
    using enq [of path r "spawner b"] by simp
  have sent: "\<exists>workers d. (case reply_sent e r (b\<lparr> spawner := w \<rparr>) of
                             Inl (err, b') \<Rightarrow> b' | Inr (r', b') \<Rightarrow> b')
                          = b\<lparr> spawner := workers, queues := d \<rparr>" for r w
    unfolding reply_sent_frame
    by (rule exI [of _ w], rule exI [of _ "queues b"]) simp
  show ?thesis
  proof (cases "e_findProject e targetProject")
    case (Inl err)
    with same show ?thesis by (simp add: try_offline_def)
  next
    case (Inr found)
    show ?thesis
    proof (cases found)
      case None
      with Inr enq0 show ?thesis by (simp add: try_offline_def)
    next
      case (Some project)
      show ?thesis
      proof (cases "pr_autoSpawn project")
        case False
        with Inr Some enq0 show ?thesis by (simp add: try_offline_def)
      next
        case True
        show ?thesis
        proof (cases "e_reply e AutoSpawning")
          case (Some err)
          with Inr \<open>found = Some project\<close> True same show ?thesis
            by (simp add: try_offline_def)
        next
          case None
          show ?thesis
          proof (cases "spawnClaude (e_findProject e) (e_osSpawn e) (e_touch e) (e_now e)
                          (pr_name project) (Some actualMessage) True (spawner b)")
            case (Inl err)
            with Inr \<open>found = Some project\<close> True None same show ?thesis
              by (simp add: try_offline_def)
          next
            case (Inr spawned)
            obtain result w where "spawned = (result, w)" by (cases spawned)
            with Inr \<open>e_findProject e targetProject = Inr found\<close> \<open>found = Some project\<close>
                 True None enq sent
            show ?thesis by (simp add: try_offline_def)
          qed
        qed
      qed
    qed
  qed
qed

lemma route_offline_frame:
  "\<exists>workers d. snd (route_offline e sender targetProject actualMessage b)
                = b\<lparr> spawner := workers, queues := d \<rparr>"
proof -
  from try_offline_frame [of e sender targetProject actualMessage b]
  obtain workers d where "(case try_offline e sender targetProject actualMessage b of
                   Inl (err, b') \<Rightarrow> b' | Inr (r', b') \<Rightarrow> b')
                = b\<lparr> spawner := workers, queues := d \<rparr>"
    by blast
  then have "snd (route_offline e sender targetProject actualMessage b)
                = b\<lparr> spawner := workers, queues := d \<rparr>"
    by (simp add: route_offline_def split: sum.splits prod.splits)
  then show ?thesis by blast
qed

lemma route_project_frame:
  "\<exists>sessions inbox workers d.
     snd (route_project e sender targetProject actualMessage b)
       = b\<lparr> activeSessions := sessions, messageQueue := inbox, spawner := workers,
            queues := d \<rparr>"
proof -
  have off: "\<exists>sessions inbox workers d.
               snd (route_offline e sender targetProject actualMessage
                      (b\<lparr> activeSessions := a \<rparr>))
                 = b\<lparr> activeSessions := sessions, messageQueue := inbox, spawner := workers,
                      queues := d \<rparr>" for a
  proof -
    from route_offline_frame [of e sender targetProject actualMessage "b\<lparr> activeSessions := a \<rparr>"]
    obtain workers d where
      "snd (route_offline e sender targetProject actualMessage (b\<lparr> activeSessions := a \<rparr>))
         = b\<lparr> activeSessions := a, spawner := workers, queues := d \<rparr>"
      by auto
    then have "snd (route_offline e sender targetProject actualMessage (b\<lparr> activeSessions := a \<rparr>))
         = b\<lparr> activeSessions := a, messageQueue := messageQueue b, spawner := workers,
              queues := d \<rparr>"
      by simp
    then show ?thesis by blast
  qed
  have live: "\<exists>sessions inbox workers d.
                b\<lparr> messageQueue := q \<rparr>
                  = b\<lparr> activeSessions := sessions, messageQueue := inbox, spawner := workers,
                       queues := d \<rparr>" for q
    by (rule exI [of _ "activeSessions b"], rule exI [of _ q], rule exI [of _ "spawner b"],
        rule exI [of _ "queues b"]) simp
  show ?thesis
    using off [of "activeSessions b"] off live
    by (simp add: route_project_def Let_def split: option.splits)
qed

lemma route_text_frame:
  "\<exists>sessions inbox workers d.
     snd (route_text e sender message b)
       = b\<lparr> activeSessions := sessions, messageQueue := inbox, spawner := workers,
            queues := d \<rparr>"
proof (cases "projectMatch message")
  case None
  have "\<exists>sessions inbox workers d.
          b\<lparr> messageQueue := q \<rparr>
            = b\<lparr> activeSessions := sessions, messageQueue := inbox, spawner := workers,
                 queues := d \<rparr>" for q
    by (rule exI [of _ "activeSessions b"], rule exI [of _ q], rule exI [of _ "spawner b"],
        rule exI [of _ "queues b"]) simp
  with None show ?thesis
    by (simp add: route_text_def route_last_def split: option.splits)
next
  case (Some m)
  obtain targetProject actualMessage where "m = (targetProject, actualMessage)" by (cases m)
  with Some route_project_frame [of e sender targetProject actualMessage b] show ?thesis
    by (simp add: route_text_def)
qed

section \<open>The last active session\<close>

lemma on_text_lastMessageSession:
  "lastMessageSession (snd (on_text e sender message b)) = lastMessageSession b"
proof -
  from route_text_frame [of e sender message b]
  obtain sessions inbox workers d where
    "snd (route_text e sender message b)
       = b\<lparr> activeSessions := sessions, messageQueue := inbox, spawner := workers,
            queues := d \<rparr>"
    by blast
  then have "lastMessageSession (snd (route_text e sender message b)) = lastMessageSession b"
    by simp
  then show ?thesis
    by (simp add: on_text_def split: list.splits option.splits)
qed

lemma notify_lastMessageSession:
  "lastMessageSession (snd (notify now msg sessionId sent b))
     = (if ENABLED b \<and> \<not> falsy (chatId b) \<and> \<not> falsy msg \<and> \<not> falsy sessionId
           \<and> Map_has (activeSessions b) (the sessionId)
        then sessionId else lastMessageSession b)"
  by (simp add: notify_def Let_def Map_has_def Map_get_def split: option.splits)

text \<open>
  Claim C4 as stated fails: a worker runs for \<open>Foo\<close> and its session is registered; the
  message \<open>Foo: hello\<close> is delivered to that session, the last active session is still
  unset, and the next message, which has no prefix, goes to the generic inbox with no
  session id.
\<close>

theorem live_delivery_keeps_last_session:
  "fst (on_text example_env ''user'' ''Foo: hello'' example_live) = SentToActiveSession ''Foo''
   \<and> lastMessageSession (snd (on_text example_env ''user'' ''Foo: hello'' example_live)) = None
   \<and> fst (on_text example_env ''user'' ''and then?''
             (snd (on_text example_env ''user'' ''Foo: hello'' example_live))) = MessageReceived
   \<and> map m_sessionId
         (messageQueue (snd (on_text example_env ''user'' ''and then?''
                               (snd (on_text example_env ''user'' ''Foo: hello'' example_live)))))
       = [Some ''a'', None]"
  by code_simp

text \<open>
  Claim C4, amended. No inbound text message changes the last active session, whatever
  its routing outcome, and neither does a registration, a heartbeat, the sweep, marking
  messages read, a question or its timeout. It is set only by a notification that is
  accepted (bridge enabled, chat id set, message present) and carries the id of a
  registered session: then it becomes that id; a notification with no session id, or
  with one that is not registered, leaves it as it is. A message with no project prefix
  that arrives while no question is pending is put in the inbox for the recorded session
  whenever that session is still registered, and with no session id when nothing is
  recorded or the recorded session is no longer registered.
\<close>

theorem last_session_set_by_notify_only:
  "lastMessageSession (snd (on_text e sender message b)) = lastMessageSession b
   \<and> lastMessageSession (snd (notify now msg sessionId sent b))
       = (if ENABLED b \<and> \<not> falsy (chatId b) \<and> \<not> falsy msg \<and> \<not> falsy sessionId
             \<and> Map_has (activeSessions b) (the sessionId)
          then sessionId else lastMessageSession b)
   \<and> lastMessageSession (snd (session_register now sessionId projectName projectPath b))
       = lastMessageSession b
   \<and> lastMessageSession (snd (session_heartbeat now sessionId b)) = lastMessageSession b
   \<and> lastMessageSession (sweep now b) = lastMessageSession b
   \<and> lastMessageSession (snd (messages_read count b)) = lastMessageSession b
   \<and> lastMessageSession (snd (ask clock question sent b)) = lastMessageSession b
   \<and> lastMessageSession (timer_fires t b) = lastMessageSession b
   \<and> (pendingQuestions b = [] \<and> projectMatch message = None
        \<and> lastMessageSession b = Some target \<and> target \<noteq> []
        \<and> Map_has (activeSessions b) target \<longrightarrow>
        on_text e sender message b
          = (AutoRouted target,
             b\<lparr> messageQueue := messageQueue b @
                   [\<lparr> m_from = sender, m_message = message, m_timestamp = e_now e,
                      m_read = False, m_sessionId = Some target \<rparr>] \<rparr>))
   \<and> (pendingQuestions b = [] \<and> projectMatch message = None
        \<and> (lastMessageSession b = None
             \<or> (\<exists>gone. lastMessageSession b = Some gone \<and> \<not> Map_has (activeSessions b) gone)) \<longrightarrow>
        on_text e sender message b
          = (MessageReceived,
             b\<lparr> messageQueue := messageQueue b @
                   [\<lparr> m_from = sender, m_message = message, m_timestamp = e_now e,
                      m_read = False, m_sessionId = None \<rparr>] \<rparr>))"
proof (intro conjI impI)
  show "lastMessageSession (snd (on_text e sender message b)) = lastMessageSession b"
    by (rule on_text_lastMessageSession)
  show "lastMessageSession (snd (notify now msg sessionId sent b))
       = (if ENABLED b \<and> \<not> falsy (chatId b) \<and> \<not> falsy msg \<and> \<not> falsy sessionId
             \<and> Map_has (activeSessions b) (the sessionId)
          then sessionId else lastMessageSession b)"
    by (rule notify_lastMessageSession)
  show "lastMessageSession (snd (session_register now sessionId projectName projectPath b))
          = lastMessageSession b"
    by (simp add: session_register_def Let_def split: option.splits)
  show "lastMessageSession (snd (session_heartbeat now sessionId b)) = lastMessageSession b"
    by (simp add: session_heartbeat_def split: option.splits)
  show "lastMessageSession (sweep now b) = lastMessageSession b"
    by (simp add: sweep_def)
  show "lastMessageSession (snd (messages_read count b)) = lastMessageSession b"
    by (simp add: messages_read_def Let_def case_prod_beta)
  show "lastMessageSession (snd (ask clock question sent b)) = lastMessageSession b"
    by (simp add: ask_def Let_def)
  show "lastMessageSession (timer_fires t b) = lastMessageSession b"
    by (simp add: timer_fires_def split: option.splits)
next
  assume "pendingQuestions b = [] \<and> projectMatch message = None
        \<and> lastMessageSession b = Some target \<and> target \<noteq> []
        \<and> Map_has (activeSessions b) target"
  then show "on_text e sender message b
          = (AutoRouted target,
             b\<lparr> messageQueue := messageQueue b @
                   [\<lparr> m_from = sender, m_message = message, m_timestamp = e_now e,
                      m_read = False, m_sessionId = Some target \<rparr>] \<rparr>)"
    by (simp add: on_text_def Map_keys_def route_text_def route_last_def)
next
  assume "pendingQuestions b = [] \<and> projectMatch message = None
        \<and> (lastMessageSession b = None
             \<or> (\<exists>gone. lastMessageSession b = Some gone \<and> \<not> Map_has (activeSessions b) gone))"
  then show "on_text e sender message b
          = (MessageReceived,
             b\<lparr> messageQueue := messageQueue b @
                   [\<lparr> m_from = sender, m_message = message, m_timestamp = e_now e,
                      m_read = False, m_sessionId = None \<rparr>] \<rparr>)"
    by (auto simp: on_text_def Map_keys_def route_text_def route_last_def)
qed

lemma projectMatch_and_then: "projectMatch ''and then?'' = None"
  by code_simp

theorem last_session_set_by_notify_only_witness:
  "lastMessageSession (snd (on_text example_env ''user'' ''Foo: hello'' example_live))
     = lastMessageSession example_live
   \<and> lastMessageSession (snd (notify 6000 (Some ''done'') (Some ''a'') True example_live))
       = Some ''a''
   \<and> lastMessageSession (snd (notify 6000 (Some ''done'') (Some ''zz'') True example_live))
       = None
   \<and> lastMessageSession (snd (notify 6000 (Some ''done'') None True example_live)) = None
   \<and> fst (on_text example_env ''user'' ''and then?''
             (snd (notify 6000 (Some ''done'') (Some ''a'') True example_live)))
       = AutoRouted ''a''
   \<and> fst (on_text example_env ''user'' ''and then?'' example_live) = MessageReceived"
proof -
  let ?b1 = "snd (notify 6000 (Some ''done'') (Some ''a'') True example_live)"
  have live: "ENABLED example_live" "\<not> falsy (chatId example_live)"
    "Map_has (activeSessions example_live) ''a''"
    "\<not> Map_has (activeSessions example_live) ''zz''"
    "lastMessageSession example_live = None" "pendingQuestions example_live = []"
    by (simp_all add: example_live_def example_bridge_def startup_def falsy_def Map_has_def)
  from last_session_set_by_notify_only [of _ _ _ example_live 6000 "Some ''done''" "Some ''a''" True]
       live
  have set: "lastMessageSession ?b1 = Some ''a''"
    by (simp add: falsy_def)
  from last_session_set_by_notify_only [of _ _ _ example_live 6000 "Some ''done''" "Some ''zz''" True]
       live
  have unknown: "lastMessageSession (snd (notify 6000 (Some ''done'') (Some ''zz'') True
                                            example_live)) = None"
    by (simp add: falsy_def)
  from last_session_set_by_notify_only [of _ _ _ example_live 6000 "Some ''done''" None True]
       live
  have absent: "lastMessageSession (snd (notify 6000 (Some ''done'') None True example_live))
                  = None"
    by (simp add: falsy_def)
  have b1: "pendingQuestions ?b1 = []" "Map_has (activeSessions ?b1) ''a''"
    by (simp_all add: notify_def falsy_def example_live_def example_bridge_def startup_def
          Map_get_def Map_has_def Map_set_def Let_def)
  from last_session_set_by_notify_only
         [of example_env "''user''" "''and then?''" ?b1 _ _ _ _ _ _ _ _ _ _ "''a''"]
       b1 set projectMatch_and_then
  have routed: "fst (on_text example_env ''user'' ''and then?'' ?b1) = AutoRouted ''a''"
    by simp
  from last_session_set_by_notify_only
         [of example_env "''user''" "''and then?''" example_live]
       live projectMatch_and_then
  have inbox: "fst (on_text example_env ''user'' ''and then?'' example_live) = MessageReceived"
    by simp
  from last_session_set_by_notify_only
         [of example_env "''user''" "''Foo: hello''" example_live]
  have kept: "lastMessageSession (snd (on_text example_env ''user'' ''Foo: hello'' example_live))
                = lastMessageSession example_live"
    by blast
  from kept set unknown absent routed inbox show ?thesis by simp
qed

section \<open>Routing to a project without a live worker\<close>














section \<open>Questions, answers and timeouts\<close>

lemma set_Map_delete: "set (Map_delete k m) = {e \<in> set m. fst e \<noteq> k}"
  by (auto simp: Map_delete_filter)

lemma set_Map_set: "set (Map_set k v m) \<subseteq> insert (k, v) (set m)"
  unfolding Map_set_def by (induction m) auto

lemma distinct_Map_set: "distinct (map fst m) \<Longrightarrow> distinct (map fst (Map_set k v m))"
  by (simp add: Map_set_def distinct_update)

lemma distinct_Map_delete: "distinct (map fst m) \<Longrightarrow> distinct (map fst (Map_delete k m))"
  by (simp add: Map_delete_def distinct_delete)

lemma Map_get_in_set: "Map_get m k = Some v \<Longrightarrow> (k, v) \<in> set m"
  by (simp add: Map_get_def map_of_SomeD)

lemma questions_ok_startup: "questions_ok (startup enabled chat d)"
  by (simp add: questions_ok_def startup_def)

lemma questions_ok_settle:
  assumes ok: "questions_ok b"
      and t: "Map_get (timers b) t = Some (k, p)"
  shows "questions_ok
           (b\<lparr> timers := Map_delete t (timers b),
               pendingQuestions := Map_delete k (pendingQuestions b),
               settlements := settlements b @ [(p, x)] \<rparr>)"
proof -
  from t have tin: "(t, (k, p)) \<in> set (timers b)" by (rule Map_get_in_set)
  from ok have "\<forall>timer \<in> set (timers b).
            fst timer = snd (snd timer) \<and> fst timer < nextHandle b
            \<and> snd (snd timer) \<notin> fst ` set (settlements b)"
    unfolding questions_ok_def by blast
  from bspec [OF this tin]
  have tp: "t = p" and fresh: "p \<notin> fst ` set (settlements b)" and lt: "t < nextHandle b"
    by simp_all
  have a: "pq_resolve (snd entry) = pq_timeout (snd entry)
           \<and> Map_get (Map_delete t (timers b)) (pq_timeout (snd entry))
               = Some (fst entry, pq_resolve (snd entry))"
    if "entry \<in> set (Map_delete k (pendingQuestions b))" for entry
  proof -
    from that have e: "entry \<in> set (pendingQuestions b)" and ne: "fst entry \<noteq> k"
      by (auto simp: set_Map_delete)
    from ok e have r: "pq_resolve (snd entry) = pq_timeout (snd entry)"
      and g: "Map_get (timers b) (pq_timeout (snd entry)) = Some (fst entry, pq_resolve (snd entry))"
      by (auto simp: questions_ok_def)
    from g t ne have "pq_timeout (snd entry) \<noteq> t" by auto
    with r g show ?thesis by (simp add: Map_get_delete)
  qed
  have b: "fst timer = snd (snd timer) \<and> fst timer < nextHandle b
           \<and> snd (snd timer) \<notin> fst ` set (settlements b @ [(p, x)])"
    if "timer \<in> set (Map_delete t (timers b))" for timer
  proof -
    from that have e: "timer \<in> set (timers b)" and ne: "fst timer \<noteq> t"
      by (auto simp: set_Map_delete)
    from ok e have "fst timer = snd (snd timer)" "fst timer < nextHandle b"
      "snd (snd timer) \<notin> fst ` set (settlements b)"
      by (auto simp: questions_ok_def)
    with ne tp show ?thesis by auto
  qed
  have c: "q < nextHandle b" if "q \<in> fst ` set (settlements b @ [(p, x)])" for q
    using that ok lt tp by (auto simp: questions_ok_def)
  have d: "distinct (map fst (settlements b @ [(p, x)]))"
    using ok fresh by (auto simp: questions_ok_def)
  have e: "distinct (map fst (Map_delete t (timers b)))"
    "distinct (map fst (Map_delete k (pendingQuestions b)))"
    using ok by (simp_all add: questions_ok_def distinct_Map_delete)
  show ?thesis
    unfolding questions_ok_def
  proof (intro conjI ballI)
    fix entry
    assume "entry \<in> set (pendingQuestions (b\<lparr> timers := Map_delete t (timers b),
               pendingQuestions := Map_delete k (pendingQuestions b),
               settlements := settlements b @ [(p, x)] \<rparr>))"
    then have m: "entry \<in> set (Map_delete k (pendingQuestions b))" by simp
    from a [OF m] show "pq_resolve (snd entry) = pq_timeout (snd entry)" by simp
    from a [OF m] show "Map_get (timers (b\<lparr> timers := Map_delete t (timers b),
               pendingQuestions := Map_delete k (pendingQuestions b),
               settlements := settlements b @ [(p, x)] \<rparr>)) (pq_timeout (snd entry))
               = Some (fst entry, pq_resolve (snd entry))" by simp
  next
    fix timer
    assume "timer \<in> set (timers (b\<lparr> timers := Map_delete t (timers b),
               pendingQuestions := Map_delete k (pendingQuestions b),
               settlements := settlements b @ [(p, x)] \<rparr>))"
    then have m: "timer \<in> set (Map_delete t (timers b))" by simp
    from b [OF m] show "fst timer = snd (snd timer)" by simp
    from b [OF m] show "fst timer < nextHandle (b\<lparr> timers := Map_delete t (timers b),
               pendingQuestions := Map_delete k (pendingQuestions b),
               settlements := settlements b @ [(p, x)] \<rparr>)" by simp
    from b [OF m] show "snd (snd timer) \<notin> fst ` set (settlements (b\<lparr> timers := Map_delete t (timers b),
               pendingQuestions := Map_delete k (pendingQuestions b),
               settlements := settlements b @ [(p, x)] \<rparr>))" by simp
  next
    fix q
    assume "q \<in> fst ` set (settlements (b\<lparr> timers := Map_delete t (timers b),
               pendingQuestions := Map_delete k (pendingQuestions b),
               settlements := settlements b @ [(p, x)] \<rparr>))"
    then have "q \<in> fst ` set (settlements b @ [(p, x)])" by simp
    from c [OF this] show "q < nextHandle (b\<lparr> timers := Map_delete t (timers b),
               pendingQuestions := Map_delete k (pendingQuestions b),
               settlements := settlements b @ [(p, x)] \<rparr>)" by simp
  qed (use d e in simp_all)
qed

lemma questions_ok_ask:
  assumes ok: "questions_ok b"
  shows "questions_ok (snd (ask now question sent b))"
proof (cases "falsy (chatId b) \<or> falsy question \<or> \<not> sent")
  case True
  with ok show ?thesis by (auto simp: ask_def)
next
  case False
  define h where "h = nextHandle b"
  have eq: "snd (ask now question sent b) =
              b\<lparr> nextHandle := h + 1,
                 timers := Map_set h (now, h) (timers b),
                 pendingQuestions :=
                   Map_set now \<lparr> pq_resolve = h, pq_timeout = h \<rparr> (pendingQuestions b) \<rparr>"
    using False by (simp add: ask_def Let_def h_def)
  have a: "pq_resolve (snd entry) = pq_timeout (snd entry)
           \<and> Map_get (Map_set h (now, h) (timers b)) (pq_timeout (snd entry))
               = Some (fst entry, pq_resolve (snd entry))"
    if "entry \<in> set (Map_set now \<lparr> pq_resolve = h, pq_timeout = h \<rparr> (pendingQuestions b))"
    for entry
  proof -
    from that set_Map_set
    consider "entry = (now, \<lparr> pq_resolve = h, pq_timeout = h \<rparr>)"
      | "entry \<in> set (pendingQuestions b)"
      by fastforce
    then show ?thesis
    proof cases
      case 1
      then show ?thesis by (simp add: Map_get_set)
    next
      case 2
      with ok have r: "pq_resolve (snd entry) = pq_timeout (snd entry)"
        and g: "Map_get (timers b) (pq_timeout (snd entry)) = Some (fst entry, pq_resolve (snd entry))"
        by (auto simp: questions_ok_def)
      from g have "(pq_timeout (snd entry), (fst entry, pq_resolve (snd entry))) \<in> set (timers b)"
        by (rule Map_get_in_set)
      with ok have "pq_timeout (snd entry) < h"
        by (auto simp: questions_ok_def h_def)
      with r g show ?thesis by (simp add: Map_get_set)
    qed
  qed
  have b: "fst timer = snd (snd timer) \<and> fst timer < h + 1
           \<and> snd (snd timer) \<notin> fst ` set (settlements b)"
    if "timer \<in> set (Map_set h (now, h) (timers b))" for timer
  proof -
    from that set_Map_set
    consider "timer = (h, (now, h))" | "timer \<in> set (timers b)"
      by fastforce
    then show ?thesis
    proof cases
      case 1
      with ok show ?thesis by (auto simp: questions_ok_def h_def)
    next
      case 2
      with ok show ?thesis by (auto simp: questions_ok_def h_def)
    qed
  qed
  have c: "q < h + 1" if "q \<in> fst ` set (settlements b)" for q
    using that ok by (auto simp: questions_ok_def h_def)
  have d: "distinct (map fst (settlements b))"
    "distinct (map fst (Map_set h (now, h) (timers b)))"
    "distinct (map fst (Map_set now \<lparr> pq_resolve = h, pq_timeout = h \<rparr> (pendingQuestions b)))"
    using ok by (simp_all add: questions_ok_def distinct_Map_set)
  show ?thesis
    unfolding eq questions_ok_def
  proof (intro conjI ballI)
    fix entry
    assume "entry \<in> set (pendingQuestions (b\<lparr> nextHandle := h + 1,
                 timers := Map_set h (now, h) (timers b),
                 pendingQuestions :=
                   Map_set now \<lparr> pq_resolve = h, pq_timeout = h \<rparr> (pendingQuestions b) \<rparr>))"
    then have m: "entry \<in> set (Map_set now \<lparr> pq_resolve = h, pq_timeout = h \<rparr> (pendingQuestions b))"
      by simp
    from a [OF m] show "pq_resolve (snd entry) = pq_timeout (snd entry)" by simp
    from a [OF m] show "Map_get (timers (b\<lparr> nextHandle := h + 1,
                 timers := Map_set h (now, h) (timers b),
                 pendingQuestions :=
                   Map_set now \<lparr> pq_resolve = h, pq_timeout = h \<rparr> (pendingQuestions b) \<rparr>))
               (pq_timeout (snd entry)) = Some (fst entry, pq_resolve (snd entry))" by simp
  next
    fix timer
    assume "timer \<in> set (timers (b\<lparr> nextHandle := h + 1,
                 timers := Map_set h (now, h) (timers b),
                 pendingQuestions :=
                   Map_set now \<lparr> pq_resolve = h, pq_timeout = h \<rparr> (pendingQuestions b) \<rparr>))"
    then have m: "timer \<in> set (Map_set h (now, h) (timers b))" by simp
    from b [OF m] show "fst timer = snd (snd timer)" by simp
    from b [OF m] show "fst timer < nextHandle (b\<lparr> nextHandle := h + 1,
                 timers := Map_set h (now, h) (timers b),
                 pendingQuestions :=
                   Map_set now \<lparr> pq_resolve = h, pq_timeout = h \<rparr> (pendingQuestions b) \<rparr>)" by simp
    from b [OF m] show "snd (snd timer) \<notin> fst ` set (settlements (b\<lparr> nextHandle := h + 1,
                 timers := Map_set h (now, h) (timers b),
                 pendingQuestions :=
                   Map_set now \<lparr> pq_resolve = h, pq_timeout = h \<rparr> (pendingQuestions b) \<rparr>))" by simp
  next
    fix q
    assume "q \<in> fst ` set (settlements (b\<lparr> nextHandle := h + 1,
                 timers := Map_set h (now, h) (timers b),
                 pendingQuestions :=
                   Map_set now \<lparr> pq_resolve = h, pq_timeout = h \<rparr> (pendingQuestions b) \<rparr>))"
    then have "q \<in> fst ` set (settlements b)" by simp
    from c [OF this] show "q < nextHandle (b\<lparr> nextHandle := h + 1,
                 timers := Map_set h (now, h) (timers b),
                 pendingQuestions :=
                   Map_set now \<lparr> pq_resolve = h, pq_timeout = h \<rparr> (pendingQuestions b) \<rparr>)" by simp
  qed (use d in simp_all)
qed

lemma questions_ok_timer_fires:
  "questions_ok b \<Longrightarrow> questions_ok (timer_fires t b)"
  by (auto simp: timer_fires_def questions_ok_settle split: option.splits)


lemma route_text_questions:
  "pendingQuestions (snd (route_text e sender message b)) = pendingQuestions b
   \<and> timers (snd (route_text e sender message b)) = timers b
   \<and> settlements (snd (route_text e sender message b)) = settlements b
   \<and> nextHandle (snd (route_text e sender message b)) = nextHandle b"
proof -
  from route_text_frame [of e sender message b]
  obtain sessions inbox workers d where
    "snd (route_text e sender message b)
       = b\<lparr> activeSessions := sessions, messageQueue := inbox, spawner := workers,
            queues := d \<rparr>"
    by blast
  then show ?thesis by simp
qed

lemma questions_ok_cong:
  assumes "questions_ok b"
      and "pendingQuestions b' = pendingQuestions b" and "timers b' = timers b"
      and "settlements b' = settlements b" and "nextHandle b' = nextHandle b"
  shows "questions_ok b'"
proof -
  have "questions_ok b' = questions_ok b"
    unfolding questions_ok_def assms(2-5) by (rule refl)
  with assms(1) show ?thesis by simp
qed

lemma on_text_answer:
  assumes "pendingQuestions b = (k, q) # others"
  shows "on_text e sender message b
           = (AnswerReceived,
              b\<lparr> timers := Map_delete (pq_timeout q) (timers b),
                 pendingQuestions := Map_delete k (pendingQuestions b),
                 settlements := settlements b @ [(pq_resolve q, Resolved message)] \<rparr>)"
  using assms by (simp add: on_text_def Map_keys_def Map_get_def)

lemma questions_ok_head:
  assumes "questions_ok b" and "pendingQuestions b = (k, q) # others"
  shows "Map_get (timers b) (pq_timeout q) = Some (k, pq_resolve q)"
proof -
  from assms(2) have "(k, q) \<in> set (pendingQuestions b)" by simp
  with assms(1) have "Map_get (timers b) (pq_timeout (snd (k, q))) = Some (fst (k, q), pq_resolve (snd (k, q)))"
    unfolding questions_ok_def by blast
  then show ?thesis by simp
qed

lemma questions_ok_on_text:
  assumes "questions_ok b"
  shows "questions_ok (snd (on_text e sender message b))"
proof (cases "pendingQuestions b")
  case Nil
  then have "on_text e sender message b = route_text e sender message b"
    by (simp add: on_text_def Map_keys_def)
  with assms route_text_questions [of e sender message b] show ?thesis
    by (auto intro: questions_ok_cong)
next
  case (Cons entry others)
  obtain k q where entry: "entry = (k, q)" by (cases entry)
  from Cons entry have p: "pendingQuestions b = (k, q) # others" by simp
  show ?thesis
    unfolding on_text_answer [OF p] snd_conv
    by (rule questions_ok_settle [OF assms questions_ok_head [OF assms p]])
qed

lemma questions_ok_step: "questions_ok b \<Longrightarrow> questions_ok (step b ev)"
  by (cases ev) (simp_all add: questions_ok_ask questions_ok_timer_fires questions_ok_on_text)

lemma questions_ok_run: "questions_ok b \<Longrightarrow> questions_ok (run b evs)"
  unfolding run_def by (induction evs arbitrary: b) (simp_all add: questions_ok_step)

lemma settlements_step: "\<exists>new. settlements (step b ev) = settlements b @ new"
proof (cases ev)
  case (AskCalled now question sent)
  then show ?thesis by (simp add: ask_def Let_def)
next
  case (TimerFires t)
  then show ?thesis by (simp add: timer_fires_def split: option.splits)
next
  case (TextArrives e sender message)
  show ?thesis
  proof (cases "pendingQuestions b")
    case Nil
    then have "on_text e sender message b = route_text e sender message b"
      by (simp add: on_text_def Map_keys_def)
    with TextArrives route_text_questions [of e sender message b] show ?thesis by simp
  next
    case (Cons entry others)
    obtain k q where "entry = (k, q)" by (cases entry)
    with Cons have "pendingQuestions b = (k, q) # others" by simp
    from on_text_answer [OF this] TextArrives show ?thesis by simp
  qed
qed

lemma settlements_run: "\<exists>new. settlements (run b evs) = settlements b @ new"
  unfolding run_def
proof (induction evs arbitrary: b)
  case Nil
  then show ?case by simp
next
  case (Cons ev evs)
  from settlements_step [of b ev] obtain n1 where "settlements (step b ev) = settlements b @ n1" ..
  moreover from Cons [of "step b ev"] obtain n2
    where "settlements (foldl step (step b ev) evs) = settlements (step b ev) @ n2" ..
  ultimately show ?case by simp
qed

lemma outcome_run:
  assumes "outcome b p = Some x"
  shows "outcome (run b evs) p = Some x"
proof -
  from settlements_run [of b evs] obtain new where "settlements (run b evs) = settlements b @ new" ..
  with assms show ?thesis by (simp add: outcome_def)
qed

lemma outcome_settle:
  assumes "questions_ok b" and "Map_get (timers b) t = Some (k, p)"
  shows "outcome b p = None"
    and "outcome (b\<lparr> timers := Map_delete t (timers b),
                      pendingQuestions := Map_delete k (pendingQuestions b),
                      settlements := settlements b @ [(p, x)] \<rparr>) p = Some x"
proof -
  from assms(2) have "(t, (k, p)) \<in> set (timers b)" by (rule Map_get_in_set)
  with assms(1) have "snd (snd (t, (k, p))) \<notin> fst ` set (settlements b)"
    unfolding questions_ok_def by blast
  then have "p \<notin> fst ` set (settlements b)" by simp
  then have n: "map_of (settlements b) p = None"
    by (simp add: map_of_eq_None_iff)
  then show "outcome b p = None" by (simp add: outcome_def)
  from n show "outcome (b\<lparr> timers := Map_delete t (timers b),
                      pendingQuestions := Map_delete k (pendingQuestions b),
                      settlements := settlements b @ [(p, x)] \<rparr>) p = Some x"
    by (simp add: outcome_def map_add_def)
qed

lemma no_entry_for_settled:
  assumes "questions_ok b" and "entry \<in> set (pendingQuestions b)"
  shows "outcome b (pq_resolve (snd entry)) = None"
proof -
  from assms have "Map_get (timers b) (pq_timeout (snd entry)) = Some (fst entry, pq_resolve (snd entry))"
    unfolding questions_ok_def by blast
  from outcome_settle(1) [OF assms(1) this] show ?thesis .
qed


text \<open>
  Claim C6. Let \<open>b\<close> be the state after any sequence of \<^verbatim>\<open>/ask\<close> calls, timer callbacks
  and inbound messages from the start.
  A question issued in \<open>b\<close> gets a promise \<open>h\<close> that is not settled, a timer \<open>h\<close> armed
  for it and the entry under its question id.
  If a timer is still armed in \<open>b\<close> (no answer was matched to its question and it has not
  fired), its promise is not settled, and when it fires the promise is rejected with the
  timeout error, the timer is gone, the entry of its question id is deleted, no pending
  entry resolves that promise any more, and the outcome stays whatever happens later.
  If an entry is the oldest pending one in \<open>b\<close>, its promise is not settled, and the next
  inbound message resolves it with the message text, clears its timer and deletes the
  entry, and the outcome stays whatever happens later.
  No promise is ever settled twice.
\<close>

theorem question_settled_once:
  assumes "b = run (startup enabled chat d) evs"
  shows "(fst (ask now (Some question) True b) = AskWaiting h \<longrightarrow>
            outcome b h = None
            \<and> Map_get (timers (snd (ask now (Some question) True b))) h = Some (now, h)
            \<and> Map_get (pendingQuestions (snd (ask now (Some question) True b))) now
                = Some \<lparr> pq_resolve = h, pq_timeout = h \<rparr>)
       \<and> (Map_get (timers b) t = Some (k, p) \<longrightarrow>
            outcome b p = None
            \<and> outcome (timer_fires t b) p = Some (Rejected ''Timeout waiting for answer'')
            \<and> Map_get (timers (timer_fires t b)) t = None
            \<and> Map_get (pendingQuestions (timer_fires t b)) k = None
            \<and> (\<forall>entry \<in> set (pendingQuestions (timer_fires t b)). pq_resolve (snd entry) \<noteq> p)
            \<and> (\<forall>later. outcome (run (timer_fires t b) later) p
                          = Some (Rejected ''Timeout waiting for answer'')))
       \<and> (pendingQuestions b = (questionId, q) # others \<longrightarrow>
            outcome b (pq_resolve q) = None
            \<and> fst (on_text e sender message b) = AnswerReceived
            \<and> outcome (snd (on_text e sender message b)) (pq_resolve q) = Some (Resolved message)
            \<and> Map_get (timers (snd (on_text e sender message b))) (pq_timeout q) = None
            \<and> Map_get (pendingQuestions (snd (on_text e sender message b))) questionId = None
            \<and> (\<forall>later. outcome (run (snd (on_text e sender message b)) later) (pq_resolve q)
                          = Some (Resolved message)))
       \<and> distinct (map fst (settlements b))"
proof -
  have ok: "questions_ok b"
    unfolding assms by (rule questions_ok_run [OF questions_ok_startup])
  have asked: "outcome b h = None
            \<and> Map_get (timers (snd (ask now (Some question) True b))) h = Some (now, h)
            \<and> Map_get (pendingQuestions (snd (ask now (Some question) True b))) now
                = Some \<lparr> pq_resolve = h, pq_timeout = h \<rparr>"
    if a: "fst (ask now (Some question) True b) = AskWaiting h"
  proof -
    from a have h: "h = nextHandle b"
      and eq: "snd (ask now (Some question) True b) =
              b\<lparr> nextHandle := h + 1,
                 timers := Map_set h (now, h) (timers b),
                 pendingQuestions :=
                   Map_set now \<lparr> pq_resolve = h, pq_timeout = h \<rparr> (pendingQuestions b) \<rparr>"
      by (auto simp: ask_def Let_def split: if_splits)
    from ok have "\<forall>p \<in> fst ` set (settlements b). p < nextHandle b"
      unfolding questions_ok_def by blast
    with h have "h \<notin> fst ` set (settlements b)" by auto
    then have "outcome b h = None"
      by (simp add: outcome_def map_of_eq_None_iff)
    then show ?thesis by (simp add: eq Map_get_set)
  qed
  have fired: "outcome b p = None
            \<and> outcome (timer_fires t b) p = Some (Rejected ''Timeout waiting for answer'')
            \<and> Map_get (timers (timer_fires t b)) t = None
            \<and> Map_get (pendingQuestions (timer_fires t b)) k = None
            \<and> (\<forall>entry \<in> set (pendingQuestions (timer_fires t b)). pq_resolve (snd entry) \<noteq> p)
            \<and> (\<forall>later. outcome (run (timer_fires t b) later) p
                          = Some (Rejected ''Timeout waiting for answer''))"
    if g: "Map_get (timers b) t = Some (k, p)"
  proof -
    have eq: "timer_fires t b =
                b\<lparr> timers := Map_delete t (timers b),
                   pendingQuestions := Map_delete k (pendingQuestions b),
                   settlements := settlements b @ [(p, Rejected ''Timeout waiting for answer'')] \<rparr>"
      using g by (simp add: timer_fires_def)
    have ok': "questions_ok (timer_fires t b)"
      by (rule questions_ok_timer_fires [OF ok])
    have out: "outcome (timer_fires t b) p = Some (Rejected ''Timeout waiting for answer'')"
      unfolding eq by (rule outcome_settle(2) [OF ok g])
    have "pq_resolve (snd entry) \<noteq> p" if "entry \<in> set (pendingQuestions (timer_fires t b))" for entry
      using no_entry_for_settled [OF ok' that] out by auto
    moreover have "outcome (run (timer_fires t b) later) p
                     = Some (Rejected ''Timeout waiting for answer'')" for later
      by (rule outcome_run [OF out])
    moreover have "Map_get (timers (timer_fires t b)) t = None"
      "Map_get (pendingQuestions (timer_fires t b)) k = None"
      by (simp_all add: eq Map_get_delete)
    ultimately show ?thesis
      using outcome_settle(1) [OF ok g] out by blast
  qed
  have answered: "outcome b (pq_resolve q) = None
            \<and> fst (on_text e sender message b) = AnswerReceived
            \<and> outcome (snd (on_text e sender message b)) (pq_resolve q) = Some (Resolved message)
            \<and> Map_get (timers (snd (on_text e sender message b))) (pq_timeout q) = None
            \<and> Map_get (pendingQuestions (snd (on_text e sender message b))) questionId = None
            \<and> (\<forall>later. outcome (run (snd (on_text e sender message b)) later) (pq_resolve q)
                          = Some (Resolved message))"
    if p: "pendingQuestions b = (questionId, q) # others"
  proof -
    note g = questions_ok_head [OF ok p]
    note eq = on_text_answer [OF p, of e sender message]
    have out: "outcome (snd (on_text e sender message b)) (pq_resolve q) = Some (Resolved message)"
      unfolding eq snd_conv by (rule outcome_settle(2) [OF ok g])
    have "outcome (run (snd (on_text e sender message b)) later) (pq_resolve q)
            = Some (Resolved message)" for later
      by (rule outcome_run [OF out])
    moreover have "Map_get (timers (snd (on_text e sender message b))) (pq_timeout q) = None"
      "Map_get (pendingQuestions (snd (on_text e sender message b))) questionId = None"
      "fst (on_text e sender message b) = AnswerReceived"
      by (simp_all add: eq Map_get_delete)
    ultimately show ?thesis
      using outcome_settle(1) [OF ok g] out by blast
  qed
  have once: "distinct (map fst (settlements b))"
    using ok unfolding questions_ok_def by blast
  from asked fired answered once show ?thesis by blast
qed


lemma example_run:
  "run (startup True (Some ''42'') []) [AskCalled 1000 (Some ''Deploy now?'') True]
     = (startup True (Some ''42'') [])
         \<lparr> nextHandle := 1, timers := [(0, (1000, 0))],
           pendingQuestions := [(1000, \<lparr> pq_resolve = 0, pq_timeout = 0 \<rparr>)] \<rparr>"
  by (simp add: run_def ask_def falsy_def startup_def Map_set_def)

theorem question_settled_once_witness:
  "Map_get (timers (run (startup True (Some ''42'') [])
                      [AskCalled 1000 (Some ''Deploy now?'') True])) 0 = Some (1000, 0)
   \<and> outcome (timer_fires 0 (run (startup True (Some ''42'') [])
                               [AskCalled 1000 (Some ''Deploy now?'') True])) 0
       = Some (Rejected ''Timeout waiting for answer'')
   \<and> pendingQuestions (run (startup True (Some ''42'') [])
                          [AskCalled 1000 (Some ''Deploy now?'') True])
       = (1000, \<lparr> pq_resolve = 0, pq_timeout = 0 \<rparr>) # []
   \<and> outcome (snd (on_text example_env ''user'' ''yes''
                      (run (startup True (Some ''42'') [])
                         [AskCalled 1000 (Some ''Deploy now?'') True]))) 0
       = Some (Resolved ''yes'')
   \<and> fst (ask 2000 (Some ''Again?'') True
             (run (startup True (Some ''42'') [])
                [AskCalled 1000 (Some ''Deploy now?'') True])) = AskWaiting 1
   \<and> outcome (run (startup True (Some ''42'') [])
                 [AskCalled 1000 (Some ''Deploy now?'') True]) 1 = None"
proof -
  let ?b = "run (startup True (Some ''42'') []) [AskCalled 1000 (Some ''Deploy now?'') True]"
  have t: "Map_get (timers ?b) 0 = Some (1000, 0)"
    by (simp add: example_run Map_get_def)
  have p: "pendingQuestions ?b = (1000, \<lparr> pq_resolve = 0, pq_timeout = 0 \<rparr>) # []"
    by (simp add: example_run)
  have a: "fst (ask 2000 (Some ''Again?'') True ?b) = AskWaiting 1"
    unfolding example_run by (simp add: ask_def falsy_def startup_def)
  note w = question_settled_once
             [OF refl, of 2000 "''Again?''" True "Some ''42''" "[]"
                "[AskCalled 1000 (Some ''Deploy now?'') True]" 1 0 1000 0 1000
                "\<lparr> pq_resolve = 0, pq_timeout = 0 \<rparr>" "[]" example_env "''user''" "''yes''"]
  from w t have "outcome (timer_fires 0 ?b) 0 = Some (Rejected ''Timeout waiting for answer'')"
    by blast
  moreover from w p
  have "outcome (snd (on_text example_env ''user'' ''yes'' ?b)) 0 = Some (Resolved ''yes'')"
    by simp
  moreover from w a have "outcome ?b 1 = None"
    by blast
  ultimately show ?thesis
    using t p a by simp
qed

end
